theory Spec2Isabelle
  imports Complex_Main "HOL-Library.Word" "HOL-Library.Signed_Division"
begin

section \<open>Common types\<close>

text \<open>
  \<^verbatim>\<open>common/exception.h\<close>: the kinds of exception the macros
  \<^verbatim>\<open>THROW_..._EXCEPTION\<close> raise.
\<close>

datatype ExceptionType =
    INVALID | OUT_OF_RANGE | CONVERSION | UNKNOWN_TYPE | DECIMAL | MISMATCH_TYPE
  | DIVIDE_BY_ZERO | INCOMPATIBLE_TYPE | OUT_OF_MEMORY | NOT_IMPLEMENTED | IO
  | UNREACHABLE | LOGIC_ERROR

type_synonym page_id_t = int
type_synonym frame_id_t = nat
type_synonym lsn_t = "32 word"
type_synonym byte = "8 word"

text \<open>
  Modelled from the spec: the reserved sentinel \<^verbatim>\<open>INVALID_PAGE_ID\<close> (config.h is not
  among the sources); \<^verbatim>\<open>DeletePage\<close> writes it as the literal \<^verbatim>\<open>-1\<close>.
\<close>

definition INVALID_PAGE_ID :: page_id_t where
  "INVALID_PAGE_ID = - 1"

section \<open>Buffer pool manager (buffer\_pool\_manager.cpp)\<close>

subsection \<open>Collaborators\<close>

text \<open>
  A frame of the pool: the in-memory metadata of \<^verbatim>\<open>Page\<close> and its byte buffer.
  The pin count is a counter that the pool only increments, decrements and compares
  with zero.
\<close>

record Page =
  page_id :: page_id_t
  pin_count :: nat
  is_dirty :: bool
  data :: "byte list"

text \<open>
  Modelled from the spec: \<^verbatim>\<open>PageHeader::GetLSN\<close> (page\_header.h is not among
  the sources). The header is the prefix of the page bytes; the LSN is the little-endian
  unsigned 32-bit field at offset 4.
\<close>

definition GetLSN :: "byte list \<Rightarrow> lsn_t" where
  "GetLSN d =
     (case drop 4 d of
        b0 # b1 # b2 # b3 # _ \<Rightarrow>
          of_nat (unat b0 + 256 * unat b1 + 65536 * unat b2 + 16777216 * unat b3)
      | _ \<Rightarrow> 0)"

text \<open>\<^verbatim>\<open>Page::ZeroData\<close>: the buffer keeps its size and every byte becomes zero.\<close>

definition ZeroData :: "byte list \<Rightarrow> byte list" where
  "ZeroData d = replicate (length d) 0"

text \<open>
  Modelled from the spec: \<^verbatim>\<open>LRUReplacer\<close> (lru\_replacer.h is not among the
  sources). The eligible frames are an ordered set, least recently unpinned first.
  \<^verbatim>\<open>Unpin\<close> adds at the most-recent end and is idempotent, \<^verbatim>\<open>Pin\<close> removes
  (no-op if absent), \<^verbatim>\<open>Evict\<close> removes and returns the least recent frame and
  fails when there is none, \<^verbatim>\<open>Size\<close> counts the eligible frames.
\<close>

type_synonym LRUReplacer = "frame_id_t list"

definition LRUReplacer_new :: LRUReplacer where
  "LRUReplacer_new = []"

definition Unpin :: "frame_id_t \<Rightarrow> LRUReplacer \<Rightarrow> LRUReplacer" where
  "Unpin fid r = (if fid \<in> set r then r else r @ [fid])"

definition Pin :: "frame_id_t \<Rightarrow> LRUReplacer \<Rightarrow> LRUReplacer" where
  "Pin fid r = removeAll fid r"

definition Evict :: "LRUReplacer \<Rightarrow> (frame_id_t \<times> LRUReplacer) option" where
  "Evict r = (case r of [] \<Rightarrow> None | fid # rest \<Rightarrow> Some (fid, rest))"

definition Size :: "LRUReplacer \<Rightarrow> nat" where
  "Size r = length r"

text \<open>
  The disk manager and the log manager are external. The calls the pool makes to them
  are recorded, oldest first; what they hand back (the id \<^verbatim>\<open>AllocatePage\<close> returns,
  the outcome of \<^verbatim>\<open>ReadPage\<close>) is an argument of the operation that asks for it.
\<close>

datatype call =
    LogFlush lsn_t bool
  | WritePage page_id_t "byte list"
  | ReadPage page_id_t bool
  | AllocatePage
  | DeallocatePage page_id_t

subsection \<open>State\<close>

text \<open>
  The members \<^verbatim>\<open>pool_size_\<close>, \<^verbatim>\<open>pages_\<close>, ... are the fields below, without the
  trailing underscore; so are those of \<^verbatim>\<open>Page\<close> above, and a parameter
  \<^verbatim>\<open>page_id\<close> is \<open>pid\<close>. The free list is a \<^verbatim>\<open>std::list\<close>: its front is the head of
  the list here. The field \<open>log_manager\<close> records whether the pointer is non-null, the
  field \<open>calls\<close> the calls made to the disk manager and the log manager so far. The
  diagnostic counter \<^verbatim>\<open>flush_wait_time_\<close> measures wall-clock time and is left out.
\<close>

record BufferPoolManager =
  pool_size :: nat
  pages :: "Page list"
  page_table :: "page_id_t \<rightharpoonup> frame_id_t"
  free_list :: "frame_id_t list"
  replacer :: LRUReplacer
  log_manager :: bool
  calls :: "call list"

text \<open>
  The constructor. \<^verbatim>\<open>new Page[pool_size_]\<close> default-constructs the frames; the
  class \<^verbatim>\<open>Page\<close> is not among the sources, so the default frame is a parameter.
\<close>

definition BufferPoolManager_ctor :: "nat \<Rightarrow> bool \<Rightarrow> Page \<Rightarrow> BufferPoolManager" where
  "BufferPoolManager_ctor n lg blank =
     \<lparr> pool_size = n,
       pages = replicate n blank,
       page_table = Map.empty,
       free_list = [0..<n],
       replacer = LRUReplacer_new,
       log_manager = lg,
       calls = [] \<rparr>"

text \<open>Assignment to the fields of \<^verbatim>\<open>pages_[frame_id]\<close>.\<close>

definition set_page :: "frame_id_t \<Rightarrow> (Page \<Rightarrow> Page) \<Rightarrow> BufferPoolManager \<Rightarrow> BufferPoolManager" where
  "set_page frame_id upd s = s\<lparr>pages := (pages s)[frame_id := upd (pages s ! frame_id)]\<rparr>"

definition emit :: "call list \<Rightarrow> BufferPoolManager \<Rightarrow> BufferPoolManager" where
  "emit cs s = s\<lparr>calls := calls s @ cs\<rparr>"

subsection \<open>Operations\<close>

definition FlushPageHelper :: "frame_id_t \<Rightarrow> BufferPoolManager \<Rightarrow> BufferPoolManager" where
  "FlushPageHelper frame_id s =
     (let page = pages s ! frame_id;
          s1 = (if log_manager s then emit [LogFlush (GetLSN (data page)) True] s else s);
          s2 = emit [WritePage (page_id page) (data page)] s1
      in set_page frame_id (\<lambda>p. p\<lparr>is_dirty := False\<rparr>) s2)"

text \<open>
  The block both \<^verbatim>\<open>FetchPage\<close> and \<^verbatim>\<open>NewPage\<close> run to obtain a frame: the back of
  the free list first, else a victim of the replacer, flushed if dirty, whose old
  mapping is erased. \<^verbatim>\<open>None\<close> is the \<^verbatim>\<open>return nullptr\<close> after a failed
  \<^verbatim>\<open>Evict\<close>.
\<close>

definition take_frame :: "BufferPoolManager \<Rightarrow> (frame_id_t \<times> BufferPoolManager) option" where
  "take_frame s =
     (if free_list s \<noteq> [] then
        Some (last (free_list s), s\<lparr>free_list := butlast (free_list s)\<rparr>)
      else
        (case Evict (replacer s) of
           None \<Rightarrow> None
         | Some (frame_id, r) \<Rightarrow>
             let s1 = s\<lparr>replacer := r\<rparr>;
                 s2 = (if is_dirty (pages s1 ! frame_id) then FlushPageHelper frame_id s1 else s1);
                 s3 = s2\<lparr>page_table := (page_table s2)(page_id (pages s2 ! frame_id) := None)\<rparr>
             in Some (frame_id, s3)))"

text \<open>
  \<^verbatim>\<open>FetchPage\<close>. The result is the frame whose address is returned, \<^verbatim>\<open>None\<close> for
  \<^verbatim>\<open>nullptr\<close>, or the IO exception of \<^verbatim>\<open>ReadPage\<close>, which leaves the frame
  claimed. \<open>rd\<close> is what \<^verbatim>\<open>ReadPage\<close> does: \<^verbatim>\<open>None\<close> when it throws, else the
  bytes it puts into the buffer.
\<close>

definition FetchPage ::
  "page_id_t \<Rightarrow> bool \<Rightarrow> byte list option \<Rightarrow> BufferPoolManager
     \<Rightarrow> (ExceptionType + frame_id_t option) \<times> BufferPoolManager" where
  "FetchPage pid outbound_is_error rd s =
     (case page_table s pid of
        Some frame_id \<Rightarrow>
          (Inr (Some frame_id),
           set_page frame_id (\<lambda>p. p\<lparr>pin_count := pin_count p + 1\<rparr>)
             (s\<lparr>replacer := Pin frame_id (replacer s)\<rparr>))
      | None \<Rightarrow>
          (case take_frame s of
             None \<Rightarrow> (Inr None, s)
           | Some (frame_id, s1) \<Rightarrow>
               let s2 = s1\<lparr>page_table := (page_table s1)(pid \<mapsto> frame_id)\<rparr>;
                   s3 = set_page frame_id
                          (\<lambda>p. p\<lparr>page_id := pid, is_dirty := False, pin_count := 1\<rparr>) s2;
                   s4 = emit [ReadPage pid outbound_is_error] s3
               in (case rd of
                     None \<Rightarrow> (Inl IO, s4)
                   | Some bytes \<Rightarrow>
                       (Inr (Some frame_id), set_page frame_id (\<lambda>p. p\<lparr>data := bytes\<rparr>) s4))))"

definition UnpinPage :: "page_id_t \<Rightarrow> bool \<Rightarrow> BufferPoolManager \<Rightarrow> bool \<times> BufferPoolManager" where
  "UnpinPage pid dirty s =
     (case page_table s pid of
        None \<Rightarrow> (False, s)
      | Some frame_id \<Rightarrow>
          let s1 = set_page frame_id (\<lambda>p. p\<lparr>is_dirty := (is_dirty p \<or> dirty)\<rparr>) s
          in if pin_count (pages s1 ! frame_id) = 0 then (False, s1)
             else
               let s2 = set_page frame_id (\<lambda>p. p\<lparr>pin_count := pin_count p - 1\<rparr>) s1
               in if pin_count (pages s2 ! frame_id) = 0
                  then (True, s2\<lparr>replacer := Unpin frame_id (replacer s2)\<rparr>)
                  else (True, s2))"

definition FlushPage :: "page_id_t \<Rightarrow> BufferPoolManager \<Rightarrow> bool \<times> BufferPoolManager" where
  "FlushPage pid s =
     (case page_table s pid of
        None \<Rightarrow> (False, s)
      | Some frame_id \<Rightarrow> (True, FlushPageHelper frame_id s))"

text \<open>
  \<^verbatim>\<open>NewPage\<close>. \<open>alloc\<close> is the id \<^verbatim>\<open>AllocatePage\<close> returns when it is called.
  The result is the returned frame (\<^verbatim>\<open>None\<close> for \<^verbatim>\<open>nullptr\<close>) and what has been
  written to \<^verbatim>\<open>*page_id\<close>, if anything.
\<close>

definition NewPage ::
  "page_id_t \<Rightarrow> BufferPoolManager
     \<Rightarrow> (frame_id_t option \<times> page_id_t option) \<times> BufferPoolManager" where
  "NewPage alloc s =
     (if free_list s = [] \<and> Size (replacer s) = 0 then ((None, None), s)
      else
        let s0 = emit [AllocatePage] s
        in (case take_frame s0 of
              None \<Rightarrow> ((None, Some alloc), s0)
            | Some (frame_id, s1) \<Rightarrow>
                let s2 = s1\<lparr>page_table := (page_table s1)(alloc \<mapsto> frame_id)\<rparr>;
                    s3 = set_page frame_id
                           (\<lambda>p. p\<lparr>page_id := alloc, is_dirty := False, pin_count := 1\<rparr>) s2;
                    s4 = set_page frame_id (\<lambda>p. p\<lparr>data := ZeroData (data p)\<rparr>) s3
                in ((Some frame_id, Some alloc), s4)))"

definition DeletePage :: "page_id_t \<Rightarrow> BufferPoolManager \<Rightarrow> bool \<times> BufferPoolManager" where
  "DeletePage pid s =
     (let s0 = emit [DeallocatePage pid] s
      in (case page_table s0 pid of
            None \<Rightarrow> (True, s0)
          | Some frame_id \<Rightarrow>
              if pin_count (pages s0 ! frame_id) > 0 then (False, s0)
              else
                let s1 = set_page frame_id (\<lambda>p. p\<lparr>page_id := - 1\<rparr>) s0;
                    s2 = s1\<lparr>page_table := (page_table s1)(pid := None)\<rparr>;
                    s3 = s2\<lparr>free_list := frame_id # free_list s2\<rparr>
                in (True, s3\<lparr>replacer := Pin frame_id (replacer s3)\<rparr>)))"

text \<open>The body of the loop of \<^verbatim>\<open>FlushAllPages\<close>, for the frame \<open>i\<close>.\<close>

definition flush_if_mapped :: "frame_id_t \<Rightarrow> BufferPoolManager \<Rightarrow> BufferPoolManager" where
  "flush_if_mapped i s =
     (if page_table s (page_id (pages s ! i)) = None then s else FlushPageHelper i s)"

definition FlushAllPages :: "BufferPoolManager \<Rightarrow> BufferPoolManager" where
  "FlushAllPages s = fold flush_if_mapped [0..<pool_size s] s"

text \<open>The public operations, each with what the collaborators hand back to it.\<close>

datatype bpm_op =
    OpFetchPage page_id_t bool "byte list option"
  | OpUnpinPage page_id_t bool
  | OpNewPage page_id_t
  | OpDeletePage page_id_t
  | OpFlushPage page_id_t
  | OpFlushAllPages

fun exec :: "bpm_op \<Rightarrow> BufferPoolManager \<Rightarrow> BufferPoolManager" where
  "exec (OpFetchPage pid e rd) s = snd (FetchPage pid e rd s)"
| "exec (OpUnpinPage pid d) s = snd (UnpinPage pid d s)"
| "exec (OpNewPage alloc) s = snd (NewPage alloc s)"
| "exec (OpDeletePage pid) s = snd (DeletePage pid s)"
| "exec (OpFlushPage pid) s = snd (FlushPage pid s)"
| "exec OpFlushAllPages s = FlushAllPages s"

fun run :: "bpm_op list \<Rightarrow> BufferPoolManager \<Rightarrow> BufferPoolManager" where
  "run [] s = s"
| "run (op # ops) s = run ops (exec op s)"

subsection \<open>Properties of the pool\<close>

text \<open>
  The bookkeeping of the frames: a mapped frame holds the page it is mapped from, the
  free list and the replacer hold no frame twice, a free frame is neither mapped nor
  eligible, and an eligible frame is not pinned.
\<close>

definition frames_wf :: "BufferPoolManager \<Rightarrow> bool" where
  "frames_wf s \<longleftrightarrow>
     (\<forall>pid f. page_table s pid = Some f \<longrightarrow> f < length (pages s) \<and> page_id (pages s ! f) = pid) \<and>
     distinct (free_list s) \<and>
     (\<forall>f \<in> set (free_list s).
        f < length (pages s) \<and> f \<notin> ran (page_table s) \<and> f \<notin> set (replacer s)) \<and>
     distinct (replacer s) \<and>
     (\<forall>f \<in> set (replacer s). f < length (pages s) \<and> pin_count (pages s ! f) = 0)"

text \<open>A frame that has been taken and belongs to nothing yet.\<close>

definition unowned :: "frame_id_t \<Rightarrow> BufferPoolManager \<Rightarrow> bool" where
  "unowned f s \<longleftrightarrow>
     f < length (pages s) \<and> f \<notin> ran (page_table s) \<and> f \<notin> set (free_list s) \<and>
     f \<notin> set (replacer s)"

text \<open>Resource conservation, as the specification states it.\<close>

definition conserved :: "BufferPoolManager \<Rightarrow> bool" where
  "conserved s \<longleftrightarrow>
     length (free_list s) + card (dom (page_table s)) = pool_size s \<and>
     set (free_list s) \<inter> ran (page_table s) = {}"

text \<open>
  The invariant that carries conservation through the operations; \<open>k\<close> counts the
  frames that an operation has taken and not yet mapped.
\<close>

definition accounted :: "nat \<Rightarrow> BufferPoolManager \<Rightarrow> bool" where
  "accounted k s \<longleftrightarrow>
     frames_wf s \<and> finite (dom (page_table s)) \<and> set (replacer s) \<subseteq> ran (page_table s) \<and>
     length (free_list s) + card (dom (page_table s)) + k = pool_size s"

text \<open>
  The id that the disk manager hands to \<^verbatim>\<open>NewPage\<close> is not resident when it is handed
  out, at every \<^verbatim>\<open>NewPage\<close> of a run.
\<close>

fun alloc_fresh :: "bpm_op \<Rightarrow> BufferPoolManager \<Rightarrow> bool" where
  "alloc_fresh (OpNewPage alloc) s = (page_table s alloc = None)"
| "alloc_fresh _ s = True"

fun fresh_allocs :: "bpm_op list \<Rightarrow> BufferPoolManager \<Rightarrow> bool" where
  "fresh_allocs [] s = True"
| "fresh_allocs (op # ops) s = (alloc_fresh op s \<and> fresh_allocs ops (exec op s))"

text \<open>
  WAL ordering of a trace of calls: at every \<^verbatim>\<open>WritePage\<close> the last forced
  \<^verbatim>\<open>Flush\<close> before it exists and covers the LSN in the header of the bytes written.
  \<open>flushed\<close> is the LSN of the last forced flush so far.
\<close>

fun wal_ordered :: "lsn_t option \<Rightarrow> call list \<Rightarrow> bool" where
  "wal_ordered flushed [] = True"
| "wal_ordered flushed (LogFlush l force # cs) =
     wal_ordered (if force then Some l else flushed) cs"
| "wal_ordered flushed (WritePage p d # cs) =
     ((case flushed of None \<Rightarrow> False | Some l \<Rightarrow> GetLSN d \<le> l) \<and> wal_ordered flushed cs)"
| "wal_ordered flushed (c # cs) = wal_ordered flushed cs"

fun last_flush :: "lsn_t option \<Rightarrow> call list \<Rightarrow> lsn_t option" where
  "last_flush flushed [] = flushed"
| "last_flush flushed (LogFlush l force # cs) =
     last_flush (if force then Some l else flushed) cs"
| "last_flush flushed (c # cs) = last_flush flushed cs"

text \<open>
  A step that keeps the log manager and adds calls that are ordered whatever came
  before them.
\<close>

definition wal_step :: "BufferPoolManager \<Rightarrow> BufferPoolManager \<Rightarrow> bool" where
  "wal_step s s' \<longleftrightarrow>
     log_manager s' = log_manager s \<and>
     (\<exists>cs. calls s' = calls s @ cs \<and> (\<forall>flushed. wal_ordered flushed cs))"

subsection \<open>Example states\<close>

text \<open>
  A frame as it is before any page is loaded, with a buffer of eight bytes to keep the
  examples short, and eight bytes whose header carries the LSN 9.
\<close>

definition default_Page :: Page where
  "default_Page = \<lparr>page_id = INVALID_PAGE_ID, pin_count = 0, is_dirty = False, data = replicate 8 0\<rparr>"

definition lsn9_bytes :: "byte list" where
  "lsn9_bytes = [0, 0, 0, 0, 9, 0, 0, 0]"

text \<open>A pool of one frame that holds page 3, unpinned and dirty.\<close>

definition dirty_pool :: BufferPoolManager where
  "dirty_pool =
     run [OpFetchPage 3 False (Some lsn9_bytes), OpUnpinPage 3 True]
       (BufferPoolManager_ctor 1 True default_Page)"

text \<open>A pool of one frame that holds page 3, unpinned and clean.\<close>

definition clean_pool :: BufferPoolManager where
  "clean_pool =
     run [OpFetchPage 3 False (Some lsn9_bytes), OpUnpinPage 3 False]
       (BufferPoolManager_ctor 1 True default_Page)"

text \<open>A pool of one frame that holds page 3, pinned once.\<close>

definition pinned_pool :: BufferPoolManager where
  "pinned_pool =
     run [OpFetchPage 3 False (Some lsn9_bytes)] (BufferPoolManager_ctor 1 True default_Page)"

text \<open>A pool of one frame as the constructor leaves it: the frame is on the free list.\<close>

definition fresh_pool :: BufferPoolManager where
  "fresh_pool = BufferPoolManager_ctor 1 True default_Page"

section \<open>B+Tree page header (b\_plus\_tree\_page.h)\<close>

datatype IndexPageType = INVALID_INDEX_PAGE | LEAF_PAGE | INTERNAL_PAGE

text \<open>
  \<^verbatim>\<open>BPlusTreePage\<close> extends \<^verbatim>\<open>PageHeader\<close> (page id and LSN) with the four
  members below; \<^verbatim>\<open>size_\<close> and \<^verbatim>\<open>max_size_\<close> are \<^verbatim>\<open>int\<close>, 32 bits, read as
  signed with \<open>sint\<close>.
\<close>

record PageHeader =
  header_page_id :: page_id_t
  header_lsn :: lsn_t

record BPlusTreePage = PageHeader +
  size_field :: "32 word"
  max_size :: "32 word"
  parent_page_id :: page_id_t
  page_type :: IndexPageType

text \<open>
  C++ division of two \<^verbatim>\<open>int\<close>: the quotient is truncated towards zero. The only
  divisor here is the constant 2.
\<close>

definition int_div :: "32 word \<Rightarrow> 32 word \<Rightarrow> 32 word" where
  "int_div a b = word_of_int (sint a sdiv sint b)"

definition IsLeafPage :: "BPlusTreePage \<Rightarrow> bool" where
  "IsLeafPage p \<longleftrightarrow> page_type p = LEAF_PAGE"

definition GetMaxSize :: "BPlusTreePage \<Rightarrow> 32 word" where
  "GetMaxSize p = max_size p"

definition GetMinSize :: "BPlusTreePage \<Rightarrow> 32 word" where
  "GetMinSize p =
     (if IsLeafPage p then int_div (max_size p) 2 else int_div (max_size p + 1) 2)"

text \<open>
  The threshold in the words of the specification: \<open>max_size / 2\<close> rounded down for a
  leaf, the ceiling of \<open>(max_size + 1) / 2\<close> for an internal page.
\<close>

definition spec_min_size :: "bool \<Rightarrow> int \<Rightarrow> int" where
  "spec_min_size leaf m =
     (if leaf then \<lfloor>real_of_int m / 2\<rfloor> else \<lceil>(real_of_int m + 1) / 2\<rceil>)"

definition internal_page_4 :: BPlusTreePage where
  "internal_page_4 =
     \<lparr>header_page_id = 1, header_lsn = 0, size_field = 2, max_size = 4,
      parent_page_id = INVALID_PAGE_ID, page_type = INTERNAL_PAGE\<rparr>"

definition internal_page_5 :: BPlusTreePage where
  "internal_page_5 =
     \<lparr>header_page_id = 1, header_lsn = 0, size_field = 3, max_size = 5,
      parent_page_id = INVALID_PAGE_ID, page_type = INTERNAL_PAGE\<rparr>"

section \<open>Index metadata and builder (index.h, index\_builder.cpp)\<close>

text \<open>
  \<^verbatim>\<open>IndexType\<close>: index.h names the enumerators \<^verbatim>\<open>BPlusTree\<close> and \<^verbatim>\<open>HashTable\<close>,
  the builder switches on \<^verbatim>\<open>IndexType::BPlusTreeType\<close>; the builder's name is kept.
\<close>

datatype IndexType = BPlusTreeType | HashTableType

text \<open>
  \<^verbatim>\<open>IndexMetadata\<close>. The key schema is represented by what the builder reads from
  it, its size in bytes (\<^verbatim>\<open>GetKeySize\<close>, an accessor the builder calls and index.h
  does not declare).
\<close>

record IndexMetadata =
  index_name :: string
  table_name :: string
  key_size :: nat
  key_attrs :: "nat list"
  index_type :: IndexType

text \<open>
  The accessors return a value, or nothing when control reaches the end of the body
  without a \<^verbatim>\<open>return\<close>. \<^verbatim>\<open>GetIndexName\<close> is \<^verbatim>\<open>return index_name_;\<close>, the body of
  \<^verbatim>\<open>GetTableName\<close> is the expression statement \<^verbatim>\<open>table_name_;\<close> alone.
\<close>

definition GetIndexName :: "IndexMetadata \<Rightarrow> string option" where
  "GetIndexName m = Some (index_name m)"

definition GetTableName :: "IndexMetadata \<Rightarrow> string option" where
  "GetTableName m = (let discarded = table_name m in None)"

definition GetKeySize :: "IndexMetadata \<Rightarrow> nat" where
  "GetKeySize m = key_size m"

definition GetIndexType :: "IndexMetadata \<Rightarrow> IndexType" where
  "GetIndexType m = index_type m"

text \<open>
  The index the builder returns: \<^verbatim>\<open>BPlusTreeIndex<GenericKey<W>, RID, GenericComparator<W>>\<close>
  built from the metadata and the buffer pool, tagged with its key width \<open>W\<close>.
\<close>

datatype 'b Index = BPlusTreeIndex nat IndexMetadata 'b

definition Build :: "IndexMetadata \<Rightarrow> 'b \<Rightarrow> ExceptionType + 'b Index" where
  "Build metadata bpm =
     (case GetIndexType metadata of
        BPlusTreeType \<Rightarrow>
          (if GetKeySize metadata = 4 then Inr (BPlusTreeIndex 4 metadata bpm)
           else if GetKeySize metadata = 8 then Inr (BPlusTreeIndex 8 metadata bpm)
           else if GetKeySize metadata = 16 then Inr (BPlusTreeIndex 16 metadata bpm)
           else if GetKeySize metadata = 32 then Inr (BPlusTreeIndex 32 metadata bpm)
           else if GetKeySize metadata = 64 then Inr (BPlusTreeIndex 64 metadata bpm)
           else Inl NOT_IMPLEMENTED)
      | _ \<Rightarrow> Inl NOT_IMPLEMENTED)"

definition orders_index :: "nat \<Rightarrow> IndexMetadata" where
  "orders_index w =
     \<lparr>index_name = ''orders_pk'', table_name = ''orders'', key_size = w, key_attrs = [0],
      index_type = BPlusTreeType\<rparr>"

section \<open>Integer division and modulo (integer\_parent\_type.h)\<close>

text \<open>
  The C++ types the templates are instantiated with: \<^verbatim>\<open>int8_t\<close>, \<^verbatim>\<open>int16_t\<close>,
  \<^verbatim>\<open>int32_t\<close>, \<^verbatim>\<open>int64_t\<close>. Their values are integers in the range of the type.
\<close>

datatype cint = Int8 | Int16 | Int32 | Int64

fun bits :: "cint \<Rightarrow> nat" where
  "bits Int8 = 8"
| "bits Int16 = 16"
| "bits Int32 = 32"
| "bits Int64 = 64"

definition int_min :: "cint \<Rightarrow> int" where
  "int_min T = - (2 ^ (bits T - 1))"

definition in_range :: "cint \<Rightarrow> int \<Rightarrow> bool" where
  "in_range T v \<longleftrightarrow> int_min T \<le> v \<and> v < - int_min T"

text \<open>\<^verbatim>\<open>static_cast<T>\<close> of an integer: the value modulo \<open>2 ^ bits T\<close>, read as signed.\<close>

definition static_cast :: "cint \<Rightarrow> int \<Rightarrow> int" where
  "static_cast T v = signed_take_bit (bits T - 1) v"

text \<open>
  The type in which \<^verbatim>\<open>x / y\<close> and \<^verbatim>\<open>x % y\<close> are computed: operands narrower than
  \<^verbatim>\<open>int\<close> are promoted to \<^verbatim>\<open>int\<close>, else the wider operand type is used.
\<close>

definition promoted :: "cint \<Rightarrow> cint \<Rightarrow> cint" where
  "promoted T1 T2 = (if bits T1 \<le> 32 \<and> bits T2 \<le> 32 then Int32 else Int64)"

text \<open>
  The built-in operators in the type \<open>P\<close>: truncation towards zero, and no defined
  result (\<open>None\<close>) for a zero divisor or for the minimum of \<open>P\<close> divided by \<open>-1\<close>.
\<close>

definition cpp_div :: "cint \<Rightarrow> int \<Rightarrow> int \<Rightarrow> int option" where
  "cpp_div P x y = (if y = 0 \<or> (x = int_min P \<and> y = - 1) then None else Some (x sdiv y))"

definition cpp_mod :: "cint \<Rightarrow> int \<Rightarrow> int \<Rightarrow> int option" where
  "cpp_mod P x y = (if y = 0 \<or> (x = int_min P \<and> y = - 1) then None else Some (x smod y))"

text \<open>
  The integer type ids, and a \<^verbatim>\<open>Value\<close> of such a type: its type id and the integer
  held in the union. \<^verbatim>\<open>GetAs<T>\<close> reads the union as a \<open>T\<close>.
\<close>

datatype TypeId = BOOLEAN | TINYINT | SMALLINT | INTEGER | BIGINT

record Value =
  type_id :: TypeId
  payload :: int

definition GetAs :: "cint \<Rightarrow> Value \<Rightarrow> int" where
  "GetAs T v = static_cast T (payload v)"

text \<open>
  What a call does: it returns a value, throws, or runs into an operation with no
  defined result.
\<close>

datatype 'a outcome = Returned 'a | Thrown ExceptionType | Undefined

definition DivideValue :: "cint \<Rightarrow> cint \<Rightarrow> Value \<Rightarrow> Value \<Rightarrow> Value outcome" where
  "DivideValue T1 T2 lhs rhs =
     (let x = GetAs T1 lhs; y = GetAs T2 rhs
      in if y = 0 then Thrown DIVIDE_BY_ZERO
         else (case cpp_div (promoted T1 T2) x y of
                 None \<Rightarrow> Undefined
               | Some q \<Rightarrow>
                   let quot1 = static_cast T1 q; quot2 = static_cast T2 q
                   in if bits T1 \<ge> bits T2
                      then Returned \<lparr>type_id = type_id lhs, payload = quot1\<rparr>
                      else Returned \<lparr>type_id = type_id rhs, payload = quot2\<rparr>))"

definition ModuloValue :: "cint \<Rightarrow> cint \<Rightarrow> Value \<Rightarrow> Value \<Rightarrow> Value outcome" where
  "ModuloValue T1 T2 lhs rhs =
     (let x = GetAs T1 lhs; y = GetAs T2 rhs
      in if y = 0 then Thrown DIVIDE_BY_ZERO
         else (case cpp_mod (promoted T1 T2) x y of
                 None \<Rightarrow> Undefined
               | Some r \<Rightarrow>
                   let rem1 = static_cast T1 r; rem2 = static_cast T2 r
                   in if bits T1 \<ge> bits T2
                      then Returned \<lparr>type_id = type_id lhs, payload = rem1\<rparr>
                      else Returned \<lparr>type_id = type_id rhs, payload = rem2\<rparr>))"


section \<open>Lemmas about the buffer pool\<close>


lemma nth_update_any:
  "(ps[f := v]) ! g = (if g = f \<and> f < length ps then v else ps ! g)"
  by (cases "f < length ps") (auto simp: nth_list_update list_update_beyond not_less)

lemma set_page_fields [simp]:
  "pool_size (set_page f u s) = pool_size s"
  "page_table (set_page f u s) = page_table s"
  "free_list (set_page f u s) = free_list s"
  "replacer (set_page f u s) = replacer s"
  "log_manager (set_page f u s) = log_manager s"
  "calls (set_page f u s) = calls s"
  "pages (set_page f u s) = (pages s)[f := u (pages s ! f)]"
  by (simp_all add: set_page_def)

lemma emit_fields [simp]:
  "pool_size (emit cs s) = pool_size s"
  "page_table (emit cs s) = page_table s"
  "free_list (emit cs s) = free_list s"
  "replacer (emit cs s) = replacer s"
  "log_manager (emit cs s) = log_manager s"
  "calls (emit cs s) = calls s @ cs"
  "pages (emit cs s) = pages s"
  by (simp_all add: emit_def)

lemma FlushPageHelper_fields [simp]:
  "pool_size (FlushPageHelper f s) = pool_size s"
  "page_table (FlushPageHelper f s) = page_table s"
  "free_list (FlushPageHelper f s) = free_list s"
  "replacer (FlushPageHelper f s) = replacer s"
  "log_manager (FlushPageHelper f s) = log_manager s"
  "pages (FlushPageHelper f s) = (pages s)[f := (pages s ! f)\<lparr>is_dirty := False\<rparr>]"
  by (simp_all add: FlushPageHelper_def Let_def)

lemma FlushPageHelper_calls:
  "calls (FlushPageHelper f s) =
     calls s @ (if log_manager s then [LogFlush (GetLSN (data (pages s ! f))) True] else [])
             @ [WritePage (page_id (pages s ! f)) (data (pages s ! f))]"
  by (simp add: FlushPageHelper_def Let_def)

lemma frames_wf_pages_cong:
  assumes "frames_wf s" "length ps = length (pages s)"
    "\<And>f. f < length ps \<Longrightarrow> page_id (ps ! f) = page_id (pages s ! f) \<and> pin_count (ps ! f) = pin_count (pages s ! f)"
  shows "frames_wf (s\<lparr>pages := ps\<rparr>)"
  using assms unfolding frames_wf_def by simp

lemma frames_wf_calls [simp]: "frames_wf (s\<lparr>calls := c\<rparr>) = frames_wf s"
  by (simp add: frames_wf_def)

lemma frames_wf_emit [simp]: "frames_wf (emit c s) = frames_wf s"
  by (simp add: frames_wf_def)

lemma frames_wf_upd:
  assumes "frames_wf s" "\<And>p. page_id (u p) = page_id p \<and> pin_count (u p) = pin_count p"
  shows "frames_wf (s\<lparr>pages := (pages s)[f := u (pages s ! f)]\<rparr>)"
proof (rule frames_wf_pages_cong [OF assms(1)])
  show "length ((pages s)[f := u (pages s ! f)]) = length (pages s)" by simp
next
  fix g assume "g < length ((pages s)[f := u (pages s ! f)])"
  then show "page_id ((pages s)[f := u (pages s ! f)] ! g) = page_id (pages s ! g) \<and>
             pin_count ((pages s)[f := u (pages s ! f)] ! g) = pin_count (pages s ! g)"
    using assms(2) by (cases "g = f") simp_all
qed

lemma frames_wf_FlushPageHelper: "frames_wf s \<Longrightarrow> frames_wf (FlushPageHelper f s)"
proof -
  assume w: "frames_wf s"
  have "FlushPageHelper f s = (s\<lparr>pages := (pages s)[f := (\<lambda>p. p\<lparr>is_dirty := False\<rparr>) (pages s ! f)]\<rparr>)
          \<lparr>calls := calls (FlushPageHelper f s)\<rparr>"
    by (simp add: FlushPageHelper_def Let_def set_page_def emit_def)
  moreover have "frames_wf (s\<lparr>pages := (pages s)[f := (\<lambda>p. p\<lparr>is_dirty := False\<rparr>) (pages s ! f)]\<rparr>)"
    by (rule frames_wf_upd [OF w]) simp
  ultimately show ?thesis by (metis frames_wf_calls)
qed

lemma take_frame_wf:
  assumes "frames_wf s" "take_frame s = Some (f, s')"
  shows "frames_wf s' \<and> unowned f s'"
proof (cases "free_list s = []")
  case False
  with assms(2) have f: "f = last (free_list s)" and s': "s' = s\<lparr>free_list := butlast (free_list s)\<rparr>"
    by (auto simp: take_frame_def)
  from False have fl: "free_list s = butlast (free_list s) @ [f]" by (simp add: f)
  have d: "distinct (butlast (free_list s) @ [f])" using assms(1) fl by (simp add: frames_wf_def)
  have m: "\<forall>g \<in> set (butlast (free_list s) @ [f]). g < length (pages s) \<and> g \<notin> ran (page_table s) \<and> g \<notin> set (replacer s)"
    using assms(1) fl by (simp add: frames_wf_def)
  show ?thesis using assms(1) d m unfolding frames_wf_def unowned_def s' by auto
next
  case True
  with assms(2) obtain r where r: "replacer s = f # r"
    by (auto simp: take_frame_def Evict_def Let_def split: list.splits)
  define s2 where "s2 = (if is_dirty (pages s ! f) then FlushPageHelper f (s\<lparr>replacer := r\<rparr>) else s\<lparr>replacer := r\<rparr>)"
  have s': "s' = s2\<lparr>page_table := (page_table s2)(page_id (pages s2 ! f) := None)\<rparr>"
    using assms(2) True r by (simp add: take_frame_def Evict_def s2_def Let_def)
  have w1: "frames_wf (s\<lparr>replacer := r\<rparr>)" "f \<notin> set r" "f < length (pages s)"
    using assms(1) r True by (auto simp: frames_wf_def)
  have w2: "frames_wf s2" unfolding s2_def using w1 by (simp add: frames_wf_FlushPageHelper)
  have e: "replacer s2 = r" "free_list s2 = []" "length (pages s2) = length (pages s)"
    using True by (auto simp: s2_def)
  show ?thesis using w2 w1 e unfolding frames_wf_def unowned_def s'
    by (auto simp: ran_def split: if_splits)
qed


lemma frames_wf_set_page_keep:
  assumes "frames_wf s" "\<And>p. page_id (u p) = page_id p \<and> pin_count (u p) = pin_count p"
  shows "frames_wf (set_page f u s)"
  unfolding set_page_def by (rule frames_wf_upd [OF assms])

lemma frames_wf_set_page_pin:
  assumes "frames_wf s" "f \<notin> set (replacer s)" "\<And>p. page_id (u p) = page_id p"
  shows "frames_wf (set_page f u s)"
  using assms unfolding frames_wf_def
  by (auto simp: nth_update_any)

lemma frames_wf_claim:
  assumes "frames_wf s" "unowned f s" "\<And>p. page_id (u p) = pid"
  shows "frames_wf (set_page f u (s\<lparr>page_table := (page_table s)(pid \<mapsto> f)\<rparr>))"
proof -
  have nr: "\<And>q g. page_table s q = Some g \<Longrightarrow> g \<noteq> f"
    using assms(2) by (auto simp: unowned_def ran_def)
  have r: "ran ((page_table s)(pid \<mapsto> f)) \<subseteq> insert f (ran (page_table s))"
    by (auto simp: ran_def split: if_splits)
  show ?thesis
    using assms nr r unfolding frames_wf_def unowned_def
    by (auto simp: nth_update_any split: if_splits)
qed

lemma unowned_set_page [simp]: "unowned f (set_page g u s) = unowned f s"
  by (simp add: unowned_def)

lemma frames_wf_FetchPage: "frames_wf s \<Longrightarrow> frames_wf (snd (FetchPage pid e rd s))"
proof -
  assume w: "frames_wf s"
  show ?thesis
  proof (cases "page_table s pid")
    case (Some f)
    have "frames_wf (s\<lparr>replacer := Pin f (replacer s)\<rparr>)"
      using w by (auto simp: frames_wf_def Pin_def distinct_removeAll)
    then have "frames_wf (set_page f (\<lambda>p. p\<lparr>pin_count := pin_count p + 1\<rparr>) (s\<lparr>replacer := Pin f (replacer s)\<rparr>))"
      by (rule frames_wf_set_page_pin) (simp_all add: Pin_def)
    then show ?thesis using Some by (simp add: FetchPage_def)
  next
    case None
    show ?thesis
    proof (cases "take_frame s")
      case None
      with \<open>page_table s pid = None\<close> w show ?thesis by (simp add: FetchPage_def)
    next
      case (Some a)
      obtain f s1 where a: "a = (f, s1)" by (cases a)
      from take_frame_wf [OF w] Some a have w1: "frames_wf s1" "unowned f s1" by auto
      define s3 where "s3 = set_page f (\<lambda>p. p\<lparr>page_id := pid, is_dirty := False, pin_count := 1\<rparr>)
                               (s1\<lparr>page_table := (page_table s1)(pid \<mapsto> f)\<rparr>)"
      have w3: "frames_wf s3" unfolding s3_def by (rule frames_wf_claim [OF w1]) simp
      have w4: "frames_wf (emit [ReadPage pid e] s3)" using w3 by simp
      have w5: "frames_wf (set_page f (\<lambda>p. p\<lparr>data := b\<rparr>) (emit [ReadPage pid e] s3))" for b
        by (rule frames_wf_set_page_keep [OF w4]) simp
      show ?thesis using None Some a w4 w5
        by (simp add: FetchPage_def Let_def s3_def split: option.splits)
    qed
  qed
qed

lemma frames_wf_NewPage: "frames_wf s \<Longrightarrow> frames_wf (snd (NewPage alloc s))"
proof -
  assume w: "frames_wf s"
  show ?thesis
  proof (cases "free_list s = [] \<and> Size (replacer s) = 0")
    case True
    then show ?thesis using w by (simp add: NewPage_def)
  next
    case False
    have w0: "frames_wf (emit [AllocatePage] s)" using w by simp
    show ?thesis
    proof (cases "take_frame (emit [AllocatePage] s)")
      case None
      then show ?thesis using False w0 by (simp add: NewPage_def Let_def)
    next
      case (Some a)
      obtain f s1 where a: "a = (f, s1)" by (cases a)
      from take_frame_wf [OF w0] Some a have w1: "frames_wf s1" "unowned f s1" by auto
      define s3 where "s3 = set_page f (\<lambda>p. p\<lparr>page_id := alloc, is_dirty := False, pin_count := 1\<rparr>)
                               (s1\<lparr>page_table := (page_table s1)(alloc \<mapsto> f)\<rparr>)"
      have w3: "frames_wf s3" unfolding s3_def by (rule frames_wf_claim [OF w1]) simp
      have w5: "frames_wf (set_page f (\<lambda>p. p\<lparr>data := ZeroData (data p)\<rparr>) s3)"
        by (rule frames_wf_set_page_keep [OF w3]) simp
      have "snd (NewPage alloc s) = set_page f (\<lambda>p. p\<lparr>data := ZeroData (data p)\<rparr>) s3"
        unfolding s3_def using False Some a by (auto simp: NewPage_def Let_def)
      then show ?thesis using w5 by simp
    qed
  qed
qed

lemma frames_wf_UnpinPage: "frames_wf s \<Longrightarrow> frames_wf (snd (UnpinPage pid d s))"
proof -
  assume w: "frames_wf s"
  show ?thesis
  proof (cases "page_table s pid")
    case None
    then show ?thesis using w by (simp add: UnpinPage_def)
  next
    case (Some f)
    then have fl: "f < length (pages s)" "f \<notin> set (free_list s)"
      using w by (auto simp: frames_wf_def ran_def)
    define s1 where "s1 = set_page f (\<lambda>p. p\<lparr>is_dirty := (is_dirty p \<or> d)\<rparr>) s"
    have w1: "frames_wf s1" unfolding s1_def by (rule frames_wf_set_page_keep [OF w]) simp
    have p1: "pin_count (pages s1 ! f) = pin_count (pages s ! f)" using fl by (simp add: s1_def)
    show ?thesis
    proof (cases "pin_count (pages s ! f) = 0")
      case True
      then show ?thesis using Some w1 p1 by (simp add: UnpinPage_def Let_def s1_def)
    next
      case False
      then have nr: "f \<notin> set (replacer s1)" using w by (auto simp: frames_wf_def s1_def)
      define s2 where "s2 = set_page f (\<lambda>p. p\<lparr>pin_count := pin_count p - 1\<rparr>) s1"
      have w2: "frames_wf s2" unfolding s2_def by (rule frames_wf_set_page_pin [OF w1 nr]) simp
      have w3: "pin_count (pages s2 ! f) = 0 \<Longrightarrow> frames_wf (s2\<lparr>replacer := Unpin f (replacer s2)\<rparr>)"
        using w2 fl nr unfolding frames_wf_def Unpin_def s2_def s1_def by auto
      have "snd (UnpinPage pid d s) =
              (if pin_count (pages s2 ! f) = 0 then s2\<lparr>replacer := Unpin f (replacer s2)\<rparr> else s2)"
        unfolding s2_def s1_def using Some False fl by (simp add: UnpinPage_def Let_def)
      then show ?thesis using w2 w3 by simp
    qed
  qed
qed

lemma frames_wf_DeletePage: "frames_wf s \<Longrightarrow> frames_wf (snd (DeletePage pid s))"
proof -
  assume w: "frames_wf s"
  show ?thesis
  proof (cases "page_table s pid")
    case None
    then show ?thesis using w by (simp add: DeletePage_def Let_def)
  next
    case (Some f)
    show ?thesis
    proof (cases "pin_count (pages s ! f) > 0")
      case True
      then show ?thesis using Some w by (simp add: DeletePage_def Let_def)
    next
      case False
      have fl: "f < length (pages s)" "f \<notin> set (free_list s)" "page_id (pages s ! f) = pid"
        using w Some by (auto simp: frames_wf_def ran_def)
      have inj: "\<And>q. page_table s q = Some f \<Longrightarrow> q = pid"
        using w fl by (auto simp: frames_wf_def)
      have nr: "f \<notin> ran ((page_table s)(pid := None))"
        using inj by (auto simp: ran_def split: if_splits)
      have sub: "ran ((page_table s)(pid := None)) \<subseteq> ran (page_table s)"
        by (auto simp: ran_def split: if_splits)
      have "frames_wf (set_page f (\<lambda>p. p\<lparr>page_id := - 1\<rparr>) (emit [DeallocatePage pid] s)
               \<lparr>page_table := (page_table s)(pid := None),
                free_list := f # free_list s,
                replacer := Pin f (replacer s)\<rparr>)"
        using w fl inj nr sub unfolding frames_wf_def Pin_def
        by (auto simp: nth_update_any distinct_removeAll split: if_splits)
      then show ?thesis using Some False by (simp add: DeletePage_def Let_def)
    qed
  qed
qed

lemma frames_wf_FlushPage: "frames_wf s \<Longrightarrow> frames_wf (snd (FlushPage pid s))"
  by (auto simp: FlushPage_def frames_wf_FlushPageHelper split: option.splits)

lemma frames_wf_fold_flush:
  "frames_wf s \<Longrightarrow> frames_wf (fold flush_if_mapped is s)"
  by (induction "is" arbitrary: s) (simp_all add: flush_if_mapped_def frames_wf_FlushPageHelper)

lemma frames_wf_FlushAllPages: "frames_wf s \<Longrightarrow> frames_wf (FlushAllPages s)"
  unfolding FlushAllPages_def by (rule frames_wf_fold_flush)

lemma frames_wf_exec: "frames_wf s \<Longrightarrow> frames_wf (exec op s)"
  by (cases op)
     (simp_all add: frames_wf_FetchPage frames_wf_UnpinPage frames_wf_NewPage
        frames_wf_DeletePage frames_wf_FlushPage frames_wf_FlushAllPages)

lemma frames_wf_run: "frames_wf s \<Longrightarrow> frames_wf (run ops s)"
  by (induction ops arbitrary: s) (simp_all add: frames_wf_exec)

lemma frames_wf_ctor: "frames_wf (BufferPoolManager_ctor n lg blank)"
  by (simp add: frames_wf_def BufferPoolManager_ctor_def LRUReplacer_new_def)



lemma accounted_conserved: "accounted 0 s \<Longrightarrow> conserved s"
  by (auto simp: accounted_def conserved_def frames_wf_def)

lemma accounted_emit [simp]: "accounted k (emit c s) = accounted k s"
  by (simp add: accounted_def)

lemma accounted_set_page_keep:
  assumes "accounted k s" "\<And>p. page_id (u p) = page_id p \<and> pin_count (u p) = pin_count p"
  shows "accounted k (set_page f u s)"
  using assms frames_wf_set_page_keep [of s u f] by (simp add: accounted_def)

lemma accounted_FlushPageHelper: "accounted k s \<Longrightarrow> accounted k (FlushPageHelper f s)"
  using frames_wf_FlushPageHelper [of s f] by (simp add: accounted_def)

lemma take_frame_accounted:
  assumes "accounted 0 s" "take_frame s = Some (f, s')"
  shows "accounted 1 s' \<and> unowned f s' \<and> dom (page_table s') \<subseteq> dom (page_table s)"
proof -
  have w: "frames_wf s" using assms(1) by (simp add: accounted_def)
  from take_frame_wf [OF w assms(2)] have w': "frames_wf s'" "unowned f s'" by auto
  show ?thesis
  proof (cases "free_list s = []")
    case False
    with assms(2) have s': "s' = s\<lparr>free_list := butlast (free_list s)\<rparr>"
      by (auto simp: take_frame_def)
    have "length (butlast (free_list s)) + 1 = length (free_list s)" using False by simp
    then show ?thesis using assms(1) w' unfolding accounted_def s' by simp
  next
    case True
    with assms(2) obtain r where r: "replacer s = f # r"
      by (auto simp: take_frame_def Evict_def Let_def split: list.splits)
    define s2 where "s2 = (if is_dirty (pages s ! f) then FlushPageHelper f (s\<lparr>replacer := r\<rparr>) else s\<lparr>replacer := r\<rparr>)"
    have s': "s' = s2\<lparr>page_table := (page_table s2)(page_id (pages s2 ! f) := None)\<rparr>"
      using assms(2) True r by (simp add: take_frame_def Evict_def s2_def Let_def)
    have e: "replacer s2 = r" "free_list s2 = []" "page_table s2 = page_table s" "pool_size s2 = pool_size s"
      "page_id (pages s2 ! f) = page_id (pages s ! f)"
      using True by (auto simp: s2_def nth_update_any)
    let ?q = "page_id (pages s ! f)"
    have "f \<in> ran (page_table s)" using assms(1) r by (auto simp: accounted_def)
    then obtain q0 where "page_table s q0 = Some f" by (auto simp: ran_def)
    then have q: "page_table s ?q = Some f" using w by (auto simp: frames_wf_def)
    have inj: "\<And>q'. page_table s q' = Some f \<Longrightarrow> q' = ?q" using w by (auto simp: frames_wf_def)
    have fr: "f \<notin> set r" using w r by (auto simp: frames_wf_def)
    have fin: "finite (dom (page_table s))" using assms(1) by (simp add: accounted_def)
    have "?q \<in> dom (page_table s)" using q by (simp add: domI)
    then have "card (dom (page_table s) - {?q}) + 1 = card (dom (page_table s))"
      using fin by (metis Suc_eq_plus1 card_Suc_Diff1)
    then have c: "card (dom ((page_table s)(?q := None))) + 1 = card (dom (page_table s))"
      by simp
    have rs: "set r \<subseteq> ran ((page_table s)(?q := None))"
    proof
      fix g assume g: "g \<in> set r"
      then have "g \<in> ran (page_table s)" using assms(1) r by (auto simp: accounted_def)
      then obtain q' where q': "page_table s q' = Some g" by (auto simp: ran_def)
      have "g \<noteq> f" using g fr by auto
      then have "q' \<noteq> ?q" using q q' by auto
      then show "g \<in> ran ((page_table s)(?q := None))" using q' by (auto simp: ran_def)
    qed
    show ?thesis using assms(1) w' c rs True unfolding accounted_def s' by (auto simp: e)
  qed
qed

lemma accounted_claim:
  assumes "accounted 1 s" "unowned f s" "page_table s pid = None" "\<And>p. page_id (u p) = pid"
  shows "accounted 0 (set_page f u (s\<lparr>page_table := (page_table s)(pid \<mapsto> f)\<rparr>))"
proof -
  have w: "frames_wf s" using assms(1) by (simp add: accounted_def)
  have w': "frames_wf (set_page f u (s\<lparr>page_table := (page_table s)(pid \<mapsto> f)\<rparr>))"
    by (rule frames_wf_claim [OF w assms(2) assms(4)])
  have c: "card (dom ((page_table s)(pid \<mapsto> f))) = card (dom (page_table s)) + 1"
    using assms(1,3) by (simp add: accounted_def domIff)
  have r: "ran ((page_table s)(pid \<mapsto> f)) = insert f (ran (page_table s))"
    using assms(3) by simp
  show ?thesis using assms(1) w' c r unfolding accounted_def by auto
qed


lemma accounted_FetchPage: "accounted 0 s \<Longrightarrow> accounted 0 (snd (FetchPage pid e rd s))"
proof -
  assume a0: "accounted 0 s"
  have w: "frames_wf s" using a0 by (simp add: accounted_def)
  have w': "frames_wf (snd (FetchPage pid e rd s))" by (rule frames_wf_FetchPage [OF w])
  show ?thesis
  proof (cases "page_table s pid")
    case (Some f)
    then show ?thesis using a0 w' unfolding accounted_def
      by (auto simp: FetchPage_def Pin_def)
  next
    case None
    show ?thesis
    proof (cases "take_frame s")
      case None
      with \<open>page_table s pid = None\<close> a0 show ?thesis by (simp add: FetchPage_def)
    next
      case (Some a)
      obtain f s1 where a: "a = (f, s1)" by (cases a)
      from take_frame_accounted [OF a0] Some a
      have a1: "accounted 1 s1" "unowned f s1" "dom (page_table s1) \<subseteq> dom (page_table s)" by auto
      have n1: "page_table s1 pid = None" using a1(3) None by (auto simp: domIff)
      define s3 where "s3 = set_page f (\<lambda>p. p\<lparr>page_id := pid, is_dirty := False, pin_count := 1\<rparr>)
                               (s1\<lparr>page_table := (page_table s1)(pid \<mapsto> f)\<rparr>)"
      have a3: "accounted 0 s3" unfolding s3_def by (rule accounted_claim [OF a1(1,2) n1]) simp
      have a4: "accounted 0 (emit [ReadPage pid e] s3)" using a3 by simp
      have a5: "accounted 0 (set_page f (\<lambda>p. p\<lparr>data := b\<rparr>) (emit [ReadPage pid e] s3))" for b
        by (rule accounted_set_page_keep [OF a4]) simp
      show ?thesis using None Some a a4 a5
        by (simp add: FetchPage_def Let_def s3_def split: option.splits)
    qed
  qed
qed

lemma accounted_NewPage:
  assumes a0: "accounted 0 s" and fresh: "page_table s alloc = None"
  shows "accounted 0 (snd (NewPage alloc s))"
proof (cases "free_list s = [] \<and> Size (replacer s) = 0")
  case True
  then show ?thesis using a0 by (simp add: NewPage_def)
next
  case False
  have b0: "accounted 0 (emit [AllocatePage] s)" using a0 by simp
  show ?thesis
  proof (cases "take_frame (emit [AllocatePage] s)")
    case None
    then show ?thesis using False b0 by (auto simp: NewPage_def Let_def)
  next
    case (Some a)
    obtain f s1 where a: "a = (f, s1)" by (cases a)
    from take_frame_accounted [OF b0] Some a
    have a1: "accounted 1 s1" "unowned f s1" "dom (page_table s1) \<subseteq> dom (page_table s)" by auto
    have n1: "page_table s1 alloc = None" using a1(3) fresh by (auto simp: domIff)
    define s3 where "s3 = set_page f (\<lambda>p. p\<lparr>page_id := alloc, is_dirty := False, pin_count := 1\<rparr>)
                             (s1\<lparr>page_table := (page_table s1)(alloc \<mapsto> f)\<rparr>)"
    have a3: "accounted 0 s3" unfolding s3_def by (rule accounted_claim [OF a1(1,2) n1]) simp
    have a5: "accounted 0 (set_page f (\<lambda>p. p\<lparr>data := ZeroData (data p)\<rparr>) s3)"
      by (rule accounted_set_page_keep [OF a3]) simp
    have "snd (NewPage alloc s) = set_page f (\<lambda>p. p\<lparr>data := ZeroData (data p)\<rparr>) s3"
      unfolding s3_def using False Some a by (auto simp: NewPage_def Let_def)
    then show ?thesis using a5 by simp
  qed
qed

lemma accounted_UnpinPage: "accounted 0 s \<Longrightarrow> accounted 0 (snd (UnpinPage pid d s))"
proof -
  assume a0: "accounted 0 s"
  have w: "frames_wf s" using a0 by (simp add: accounted_def)
  have w': "frames_wf (snd (UnpinPage pid d s))" by (rule frames_wf_UnpinPage [OF w])
  have "page_table s pid = Some f \<Longrightarrow> f \<in> ran (page_table s)" for f by (auto simp: ran_def)
  then show ?thesis using a0 w' unfolding accounted_def
    by (auto simp: UnpinPage_def Let_def Unpin_def split: option.splits if_splits)
qed

lemma accounted_DeletePage: "accounted 0 s \<Longrightarrow> accounted 0 (snd (DeletePage pid s))"
proof -
  assume a0: "accounted 0 s"
  have w: "frames_wf s" using a0 by (simp add: accounted_def)
  have w': "frames_wf (snd (DeletePage pid s))" by (rule frames_wf_DeletePage [OF w])
  show ?thesis
  proof (cases "page_table s pid")
    case None
    then show ?thesis using a0 by (simp add: DeletePage_def Let_def)
  next
    case (Some f)
    show ?thesis
    proof (cases "pin_count (pages s ! f) > 0")
      case True
      then show ?thesis using Some a0 by (simp add: DeletePage_def Let_def)
    next
      case False
      have fin: "finite (dom (page_table s))" using a0 by (simp add: accounted_def)
      have "pid \<in> dom (page_table s)" using Some by (simp add: domI)
      then have "card (dom (page_table s) - {pid}) + 1 = card (dom (page_table s))"
        using fin by (metis Suc_eq_plus1 card_Suc_Diff1)
      then have c: "card (dom ((page_table s)(pid := None))) + 1 = card (dom (page_table s))"
        by simp
      have rs: "set (Pin f (replacer s)) \<subseteq> ran ((page_table s)(pid := None))"
      proof
        fix g assume g: "g \<in> set (Pin f (replacer s))"
        then have gf: "g \<noteq> f" "g \<in> set (replacer s)" by (auto simp: Pin_def)
        then have "g \<in> ran (page_table s)" using a0 by (auto simp: accounted_def)
        then obtain q' where q': "page_table s q' = Some g" by (auto simp: ran_def)
        then have "q' \<noteq> pid" using Some gf by auto
        then show "g \<in> ran ((page_table s)(pid := None))" using q' by (auto simp: ran_def)
      qed
      have "snd (DeletePage pid s) =
              set_page f (\<lambda>p. p\<lparr>page_id := - 1\<rparr>) (emit [DeallocatePage pid] s)
               \<lparr>page_table := (page_table s)(pid := None),
                free_list := f # free_list s,
                replacer := Pin f (replacer s)\<rparr>"
        using Some False by (simp add: DeletePage_def Let_def)
      then show ?thesis using a0 w' c rs unfolding accounted_def by auto
    qed
  qed
qed

lemma accounted_FlushPage: "accounted 0 s \<Longrightarrow> accounted 0 (snd (FlushPage pid s))"
  by (auto simp: FlushPage_def accounted_FlushPageHelper split: option.splits)

lemma accounted_fold_flush:
  "accounted k s \<Longrightarrow> accounted k (fold flush_if_mapped is s)"
  by (induction "is" arbitrary: s) (simp_all add: flush_if_mapped_def accounted_FlushPageHelper)

lemma accounted_FlushAllPages: "accounted 0 s \<Longrightarrow> accounted 0 (FlushAllPages s)"
  unfolding FlushAllPages_def by (rule accounted_fold_flush)

lemma accounted_exec: "accounted 0 s \<Longrightarrow> alloc_fresh op s \<Longrightarrow> accounted 0 (exec op s)"
  by (cases op)
     (simp_all add: accounted_FetchPage accounted_UnpinPage accounted_NewPage
        accounted_DeletePage accounted_FlushPage accounted_FlushAllPages)

lemma accounted_run: "accounted 0 s \<Longrightarrow> fresh_allocs ops s \<Longrightarrow> accounted 0 (run ops s)"
  by (induction ops arbitrary: s) (simp_all add: accounted_exec)

lemma accounted_ctor: "accounted 0 (BufferPoolManager_ctor n lg blank)"
  using frames_wf_ctor [of n lg blank]
  by (simp add: accounted_def BufferPoolManager_ctor_def LRUReplacer_new_def)

lemma Page_eq_iff:
  "(p :: Page) = q \<longleftrightarrow> page_id p = page_id q \<and> pin_count p = pin_count q \<and> is_dirty p = is_dirty q \<and> data p = data q"
  by (cases p, cases q) auto

lemma take_frame_Some:
  "free_list s \<noteq> [] \<or> replacer s \<noteq> [] \<Longrightarrow> \<exists>f s1. take_frame s = Some (f, s1)"
  by (auto simp: take_frame_def Evict_def Let_def split: list.splits)

lemma take_frame_None: "take_frame s = None \<longleftrightarrow> free_list s = [] \<and> replacer s = []"
  by (auto simp: take_frame_def Evict_def Let_def split: list.splits)



lemma wal_ordered_append:
  "wal_ordered l (xs @ ys) \<longleftrightarrow> wal_ordered l xs \<and> wal_ordered (last_flush l xs) ys"
proof (induction xs arbitrary: l)
  case Nil
  show ?case by simp
next
  case (Cons c xs)
  show ?case by (cases c) (simp_all add: Cons.IH)
qed

lemma wal_step_refl: "wal_step s s"
  by (simp add: wal_step_def)

lemma wal_step_same:
  "log_manager s' = log_manager s \<Longrightarrow> calls s' = calls s \<Longrightarrow> wal_step s s'"
  by (simp add: wal_step_def)

lemma wal_step_trans: "wal_step s t \<Longrightarrow> wal_step t u \<Longrightarrow> wal_step s u"
  unfolding wal_step_def by (auto simp: wal_ordered_append)

lemma wal_step_ordered: "wal_step s s' \<Longrightarrow> wal_ordered None (calls s) \<Longrightarrow> wal_ordered None (calls s')"
  unfolding wal_step_def by (auto simp: wal_ordered_append)

lemma wal_step_FlushPageHelper: "log_manager s \<Longrightarrow> wal_step s (FlushPageHelper f s)"
  by (simp add: wal_step_def FlushPageHelper_calls)

lemma wal_step_take_frame:
  assumes "log_manager s" "take_frame s = Some (f, s')"
  shows "wal_step s s'"
proof (cases "free_list s = []")
  case False
  with assms(2) show ?thesis by (auto simp: take_frame_def intro: wal_step_same)
next
  case True
  with assms(2) obtain r where r: "replacer s = f # r"
    by (auto simp: take_frame_def Evict_def Let_def split: list.splits)
  have "wal_step (s\<lparr>replacer := r\<rparr>) (FlushPageHelper f (s\<lparr>replacer := r\<rparr>))"
    using assms(1) by (simp add: wal_step_FlushPageHelper)
  then show ?thesis using assms(2) True r
    by (auto simp: take_frame_def Evict_def Let_def wal_step_def split: if_splits)
qed

lemma log_manager_take_frame: "take_frame s = Some (f, s') \<Longrightarrow> log_manager s' = log_manager s"
  by (auto simp: take_frame_def Evict_def Let_def split: if_splits list.splits)

lemma wal_step_emit: "(\<forall>flushed. wal_ordered flushed cs) \<Longrightarrow> wal_step s (emit cs s)"
  by (simp add: wal_step_def)

lemma wal_step_FetchPage: "log_manager s \<Longrightarrow> wal_step s (snd (FetchPage pid e rd s))"
proof -
  assume lg: "log_manager s"
  show ?thesis
  proof (cases "page_table s pid")
    case (Some f)
    then show ?thesis by (simp add: FetchPage_def wal_step_def)
  next
    case None
    show ?thesis
    proof (cases "take_frame s")
      case None
      with \<open>page_table s pid = None\<close> show ?thesis by (simp add: FetchPage_def wal_step_refl)
    next
      case (Some a)
      obtain f s1 where a: "a = (f, s1)" by (cases a)
      have 1: "wal_step s s1" using wal_step_take_frame [OF lg] Some a by simp
      have 2: "wal_step s1 (snd (FetchPage pid e rd s))"
        using None Some a by (simp add: FetchPage_def Let_def wal_step_def split: option.splits)
      show ?thesis by (rule wal_step_trans [OF 1 2])
    qed
  qed
qed

lemma wal_step_NewPage: "log_manager s \<Longrightarrow> wal_step s (snd (NewPage alloc s))"
proof -
  assume lg: "log_manager s"
  show ?thesis
  proof (cases "free_list s = [] \<and> Size (replacer s) = 0")
    case True
    then show ?thesis by (simp add: NewPage_def wal_step_refl)
  next
    case False
    have 0: "wal_step s (emit [AllocatePage] s)" by (simp add: wal_step_emit)
    show ?thesis
    proof (cases "take_frame (emit [AllocatePage] s)")
      case None
      then show ?thesis using False 0 by (auto simp: NewPage_def Let_def)
    next
      case (Some a)
      obtain f s1 where a: "a = (f, s1)" by (cases a)
      have 1: "wal_step (emit [AllocatePage] s) s1"
        using wal_step_take_frame [of "emit [AllocatePage] s" f s1] lg Some a by simp
      have 2: "wal_step s1 (snd (NewPage alloc s))"
        using False Some a by (auto simp: NewPage_def Let_def wal_step_def)
      show ?thesis by (rule wal_step_trans [OF 0 wal_step_trans [OF 1 2]])
    qed
  qed
qed

lemma wal_step_fold_flush:
  "log_manager s \<Longrightarrow> wal_step s (fold flush_if_mapped is s)"
proof (induction "is" arbitrary: s)
  case Nil
  show ?case by (simp add: wal_step_refl)
next
  case (Cons i "is")
  let ?t = "flush_if_mapped i s"
  have 1: "wal_step s ?t"
    using Cons.prems by (simp add: flush_if_mapped_def wal_step_refl wal_step_FlushPageHelper)
  have "log_manager ?t" using Cons.prems by (simp add: flush_if_mapped_def)
  from Cons.IH [OF this] have 2: "wal_step ?t (fold flush_if_mapped is ?t)" .
  show ?case using wal_step_trans [OF 1 2] by simp
qed

lemma wal_step_exec: "log_manager s \<Longrightarrow> wal_step s (exec op s)"
proof (cases op)
  case (OpFetchPage pid e rd)
  assume "log_manager s" then show ?thesis using OpFetchPage by (simp add: wal_step_FetchPage)
next
  case (OpUnpinPage pid d)
  show ?thesis using OpUnpinPage
    by (auto simp: UnpinPage_def Let_def wal_step_def split: option.splits)
next
  case (OpNewPage alloc)
  assume "log_manager s" then show ?thesis using OpNewPage by (simp add: wal_step_NewPage)
next
  case (OpDeletePage pid)
  show ?thesis using OpDeletePage
    by (auto simp: DeletePage_def Let_def wal_step_def split: option.splits)
next
  case (OpFlushPage pid)
  assume "log_manager s" then show ?thesis using OpFlushPage
    by (auto simp: FlushPage_def wal_step_refl wal_step_FlushPageHelper split: option.splits)
next
  case OpFlushAllPages
  assume "log_manager s" then show ?thesis using OpFlushAllPages
    by (simp add: FlushAllPages_def wal_step_fold_flush)
qed

lemma wal_ordered_run:
  "log_manager s \<Longrightarrow> wal_ordered None (calls s) \<Longrightarrow> wal_ordered None (calls (run ops s))"
proof (induction ops arbitrary: s)
  case Nil
  then show ?case by simp
next
  case (Cons op ops)
  have st: "wal_step s (exec op s)" by (rule wal_step_exec [OF Cons.prems(1)])
  then have "log_manager (exec op s)" using Cons.prems(1) by (simp add: wal_step_def)
  moreover have "wal_ordered None (calls (exec op s))"
    by (rule wal_step_ordered [OF st Cons.prems(2)])
  ultimately show ?case using Cons.IH by simp
qed

lemma FlushPageHelper_clean:
  "f < length (pages s) \<Longrightarrow> \<not> is_dirty (pages (FlushPageHelper f s) ! f)"
  by simp

lemma take_frame_victim_clean:
  "free_list s = [] \<Longrightarrow> take_frame s = Some (f, s') \<Longrightarrow> f < length (pages s) \<Longrightarrow>
   \<not> is_dirty (pages s' ! f)"
  by (auto simp: take_frame_def Evict_def Let_def split: list.splits if_splits)

lemma flush_if_mapped_keeps:
  "length (pages (flush_if_mapped i s)) = length (pages s) \<and>
   page_table (flush_if_mapped i s) = page_table s \<and>
   page_id (pages (flush_if_mapped i s) ! g) = page_id (pages s ! g) \<and>
   (is_dirty (pages (flush_if_mapped i s) ! g) \<longrightarrow> is_dirty (pages s ! g))"
  by (auto simp: flush_if_mapped_def nth_update_any split: if_splits)

lemma fold_flush_keeps:
  "length (pages (fold flush_if_mapped is s)) = length (pages s) \<and>
   page_table (fold flush_if_mapped is s) = page_table s \<and>
   page_id (pages (fold flush_if_mapped is s) ! g) = page_id (pages s ! g) \<and>
   (is_dirty (pages (fold flush_if_mapped is s) ! g) \<longrightarrow> is_dirty (pages s ! g))"
proof (induction "is" arbitrary: s)
  case Nil
  show ?case by simp
next
  case (Cons i "is")
  show ?case using Cons.IH [of "flush_if_mapped i s"] flush_if_mapped_keeps [of i s g]
    by simp
qed

lemma fold_flush_clean:
  "g \<in> set is \<Longrightarrow> g < length (pages s) \<Longrightarrow> page_table s (page_id (pages s ! g)) \<noteq> None \<Longrightarrow>
   \<not> is_dirty (pages (fold flush_if_mapped is s) ! g)"
proof (induction "is" arbitrary: s)
  case Nil
  then show ?case by simp
next
  case (Cons i "is")
  show ?case
  proof (cases "g = i")
    case True
    have "\<not> is_dirty (pages (flush_if_mapped i s) ! g)"
      using True Cons.prems by (auto simp: flush_if_mapped_def)
    then have "\<not> is_dirty (pages (fold flush_if_mapped is (flush_if_mapped i s)) ! g)"
      using fold_flush_keeps [of "is" "flush_if_mapped i s" g] by blast
    then show ?thesis by simp
  next
    case False
    then have m: "g \<in> set is" using Cons.prems by simp
    have "\<not> is_dirty (pages (fold flush_if_mapped is (flush_if_mapped i s)) ! g)"
      by (rule Cons.IH [OF m]) (use Cons.prems flush_if_mapped_keeps [of i s g] in auto)
    then show ?thesis by simp
  qed
qed

lemma FlushAllPages_clean:
  "g < pool_size s \<Longrightarrow> g < length (pages s) \<Longrightarrow> page_table s (page_id (pages s ! g)) \<noteq> None \<Longrightarrow>
   \<not> is_dirty (pages (FlushAllPages s) ! g)"
  unfolding FlushAllPages_def using fold_flush_clean [of g "[0..<pool_size s]" s] by simp


lemma NewPage_None_iff:
  "fst (fst (NewPage alloc s)) = None \<longleftrightarrow> free_list s = [] \<and> Size (replacer s) = 0"
proof (cases "free_list s = [] \<and> Size (replacer s) = 0")
  case True
  then show ?thesis by (simp add: NewPage_def)
next
  case False
  then have "\<exists>f s1. take_frame (emit [AllocatePage] s) = Some (f, s1)"
    by (intro take_frame_Some) (auto simp: Size_def)
  then show ?thesis using False by (auto simp: NewPage_def Let_def)
qed

lemma NewPage_None_state:
  "fst (fst (NewPage alloc s)) = None \<Longrightarrow> NewPage alloc s = ((None, None), s)"
  using NewPage_None_iff [of alloc s] by (simp add: NewPage_def)

lemma NewPage_chosen:
  assumes "fst (fst (NewPage alloc s)) = Some f"
  shows "fst (NewPage alloc s) = (Some f, Some alloc) \<and>
         f = (if free_list s \<noteq> [] then last (free_list s) else hd (replacer s)) \<and>
         calls (snd (NewPage alloc s)) =
           calls s @ [AllocatePage] @
             (if free_list s = [] \<and> is_dirty (pages s ! f)
              then (if log_manager s then [LogFlush (GetLSN (data (pages s ! f))) True] else []) @
                   [WritePage (page_id (pages s ! f)) (data (pages s ! f))]
              else [])"
proof (cases "free_list s = []")
  case False
  with assms have f: "f = last (free_list s)"
    by (simp add: NewPage_def take_frame_def Let_def)
  show ?thesis using False f by (simp add: NewPage_def take_frame_def Let_def)
next
  case True
  with assms obtain r where r: "replacer s = f # r"
    by (cases "replacer s") (auto simp: NewPage_def take_frame_def Evict_def Let_def Size_def)
  show ?thesis using True r
    by (simp add: NewPage_def take_frame_def Evict_def Let_def Size_def FlushPageHelper_calls)
qed

lemma Page_all_fields:
  "p\<lparr>page_id := a, is_dirty := b, pin_count := c, data := d\<rparr> =
     \<lparr>page_id = a, pin_count = c, is_dirty = b, data = d\<rparr>"
  by (cases p) simp

lemma NewPage_pages:
  assumes "fst (fst (NewPage alloc s)) = Some f"
  shows "pages (snd (NewPage alloc s)) =
           (pages s)[f := \<lparr>page_id = alloc, pin_count = 1, is_dirty = False,
                            data = replicate (length (data (pages s ! f))) 0\<rparr>]"
proof (cases "free_list s = []")
  case False
  with assms have f: "f = last (free_list s)"
    by (simp add: NewPage_def take_frame_def Let_def)
  show ?thesis
  proof (cases "f < length (pages s)")
    case True
    then show ?thesis using False f
      by (simp add: NewPage_def take_frame_def Let_def ZeroData_def Page_all_fields)
  next
    case out: False
    then show ?thesis using False f
      by (simp add: NewPage_def take_frame_def Let_def list_update_beyond)
  qed
next
  case True
  with assms obtain r where r: "replacer s = f # r"
    by (cases "replacer s") (auto simp: NewPage_def take_frame_def Evict_def Let_def Size_def)
  show ?thesis
  proof (cases "f < length (pages s)")
    case fl: True
    then show ?thesis using True r
      by (simp add: NewPage_def take_frame_def Evict_def Let_def ZeroData_def Size_def Page_all_fields)
  next
    case out: False
    then show ?thesis using True r
      by (simp add: NewPage_def take_frame_def Evict_def Let_def Size_def list_update_beyond)
  qed
qed

lemma NewPage_fields:
  assumes "fst (fst (NewPage alloc s)) = Some f"
  shows "free_list (snd (NewPage alloc s)) = butlast (free_list s) \<and>
         replacer (snd (NewPage alloc s)) =
           (if free_list s \<noteq> [] then replacer s else tl (replacer s)) \<and>
         page_table (snd (NewPage alloc s)) =
           (if free_list s \<noteq> [] then (page_table s)(alloc \<mapsto> f)
            else ((page_table s)(page_id (pages s ! f) := None))(alloc \<mapsto> f)) \<and>
         pool_size (snd (NewPage alloc s)) = pool_size s \<and>
         log_manager (snd (NewPage alloc s)) = log_manager s"
proof (cases "free_list s = []")
  case False
  with assms have f: "f = last (free_list s)"
    by (simp add: NewPage_def take_frame_def Let_def)
  show ?thesis using False f by (simp add: NewPage_def take_frame_def Let_def)
next
  case True
  with assms obtain r where r: "replacer s = f # r"
    by (cases "replacer s") (auto simp: NewPage_def take_frame_def Evict_def Let_def Size_def)
  show ?thesis using True r
    by (simp add: NewPage_def take_frame_def Evict_def Let_def Size_def nth_update_any)
qed

lemma NewPage_owns:
  assumes w: "frames_wf s" and r: "fst (fst (NewPage alloc s)) = Some f"
  shows "f < length (pages s) \<and> f \<notin> set (free_list (snd (NewPage alloc s))) \<and>
         f \<notin> set (replacer (snd (NewPage alloc s))) \<and>
         (\<forall>q. page_table (snd (NewPage alloc s)) q = Some f \<longrightarrow> q = alloc)"
proof -
  let ?s' = "snd (NewPage alloc s)"
  have w': "frames_wf ?s'" by (rule frames_wf_NewPage [OF w])
  have m: "page_table ?s' alloc = Some f" using NewPage_fields [OF r] by simp
  then have fl: "f < length (pages ?s')" using w' by (simp add: frames_wf_def)
  then have fs: "f < length (pages s)" using NewPage_pages [OF r] by simp
  have p: "pin_count (pages ?s' ! f) = 1" using NewPage_pages [OF r] fs by simp
  have "f \<in> ran (page_table ?s')" using m by (auto simp: ran_def)
  then have 1: "f \<notin> set (free_list ?s')" using w' by (auto simp: frames_wf_def)
  have 2: "f \<notin> set (replacer ?s')" using w' p by (auto simp: frames_wf_def)
  have pid: "page_id (pages ?s' ! f) = alloc" using NewPage_pages [OF r] fs by simp
  have "\<And>q. page_table ?s' q = Some f \<Longrightarrow> page_id (pages ?s' ! f) = q"
    using w' unfolding frames_wf_def by blast
  then have 3: "\<forall>q. page_table ?s' q = Some f \<longrightarrow> q = alloc"
    using pid by auto
  show ?thesis using fs 1 2 3 by blast
qed


lemma NewPage_success:
  assumes r: "fst (fst (NewPage alloc s)) = Some f"
  shows "fst (NewPage alloc s) = (Some f, Some alloc) \<and>
           f = (if free_list s \<noteq> [] then last (free_list s) else hd (replacer s)) \<and>
           calls (snd (NewPage alloc s)) =
             calls s @ [AllocatePage] @
               (if free_list s = [] \<and> is_dirty (pages s ! f)
                then (if log_manager s then [LogFlush (GetLSN (data (pages s ! f))) True] else []) @
                     [WritePage (page_id (pages s ! f)) (data (pages s ! f))]
                else []) \<and>
           free_list (snd (NewPage alloc s)) = butlast (free_list s) \<and>
           replacer (snd (NewPage alloc s)) =
             (if free_list s \<noteq> [] then replacer s else tl (replacer s)) \<and>
           page_table (snd (NewPage alloc s)) =
             (if free_list s \<noteq> [] then (page_table s)(alloc \<mapsto> f)
              else ((page_table s)(page_id (pages s ! f) := None))(alloc \<mapsto> f)) \<and>
           page_table (snd (NewPage alloc s)) alloc = Some f \<and>
           pages (snd (NewPage alloc s)) =
             (pages s)[f := \<lparr>page_id = alloc, pin_count = 1, is_dirty = False,
                              data = replicate (length (data (pages s ! f))) 0\<rparr>] \<and>
           (f < length (pages s) \<longrightarrow>
              pages (snd (NewPage alloc s)) ! f =
                \<lparr>page_id = alloc, pin_count = 1, is_dirty = False,
                 data = replicate (length (data (pages s ! f))) 0\<rparr>) \<and>
           pool_size (snd (NewPage alloc s)) = pool_size s \<and>
           log_manager (snd (NewPage alloc s)) = log_manager s \<and>
           (frames_wf s \<longrightarrow>
              f < length (pages s) \<and>
              f \<notin> set (free_list (snd (NewPage alloc s))) \<and>
              f \<notin> set (replacer (snd (NewPage alloc s))) \<and>
              (\<forall>q. page_table (snd (NewPage alloc s)) q = Some f \<longrightarrow> q = alloc))"
proof -
  note a = NewPage_chosen [OF r]
  note b = NewPage_fields [OF r]
  note c = NewPage_pages [OF r]
  have m: "page_table (snd (NewPage alloc s)) alloc = Some f" using b by simp
  have d: "f < length (pages s) \<longrightarrow>
              pages (snd (NewPage alloc s)) ! f =
                \<lparr>page_id = alloc, pin_count = 1, is_dirty = False,
                 data = replicate (length (data (pages s ! f))) 0\<rparr>"
    using c by simp
  have e: "frames_wf s \<longrightarrow>
              f < length (pages s) \<and>
              f \<notin> set (free_list (snd (NewPage alloc s))) \<and>
              f \<notin> set (replacer (snd (NewPage alloc s))) \<and>
              (\<forall>q. page_table (snd (NewPage alloc s)) q = Some f \<longrightarrow> q = alloc)"
    using NewPage_owns [OF _ r] by blast
  show ?thesis
    apply (intro conjI)
    subgoal using a by blast
    subgoal using a by blast
    subgoal using a by blast
    subgoal using b by blast
    subgoal using b by blast
    subgoal using b by blast
    subgoal by (rule m)
    subgoal by (rule c)
    subgoal by (rule d)
    subgoal using b by blast
    subgoal using b by blast
    subgoal by (rule e)
    done
qed

section \<open>Lemmas about the page header and the integer types\<close>

lemma sdiv_nonneg: "0 \<le> (k::int) \<Longrightarrow> 0 < l \<Longrightarrow> k sdiv l = k div l"
  by (simp add: signed_divide_int_def sgn_if)

lemma sint_int_div_2:
  assumes "0 \<le> sint a"
  shows "sint (int_div a 2) = sint a div 2"
proof -
  have u: "sint a < 2 ^ 31" using sint_lt [of a] by simp
  have "sint a sdiv sint (2 :: 32 word) = sint a div 2" using assms by (simp add: sdiv_nonneg)
  moreover have "- (2 ^ 31) \<le> sint a div 2" "sint a div 2 < 2 ^ 31" using assms u by auto
  ultimately show ?thesis
    by (simp add: int_div_def sint_sbintrunc' signed_take_bit_int_eq_self)
qed

lemma sint_succ:
  assumes "sint (m :: 32 word) < 2 ^ 31 - 1"
  shows "sint (m + 1) = sint m + 1"
  using assms sint_ge [of m]
  by (simp add: sint_word_ariths signed_take_bit_int_eq_self)

lemma static_cast_in_range: "in_range T (static_cast T v)"
  using signed_take_bit_int_greater_eq_minus_exp [of "bits T - 1" v]
        signed_take_bit_int_less_exp [of "bits T - 1" v]
  by (simp add: in_range_def static_cast_def int_min_def)

lemma static_cast_id: "in_range T v \<Longrightarrow> static_cast T v = v"
  by (simp add: in_range_def static_cast_def int_min_def signed_take_bit_int_eq_self)



lemma sdiv_in_range:
  fixes x y M :: int
  assumes "- M \<le> x" "x < M" "y \<noteq> 0" "\<not> (x = - M \<and> y = - 1)"
  shows "- M \<le> x sdiv y \<and> x sdiv y < M"
proof -
  define d where "d = \<bar>x\<bar> div \<bar>y\<bar>"
  have b: "0 < \<bar>y\<bar>" using assms(3) by simp
  have d0: "0 \<le> d" unfolding d_def using b by (simp add: pos_imp_zdiv_nonneg_iff)
  have da: "d \<le> \<bar>x\<bar>"
  proof (cases "x = 0")
    case True
    then show ?thesis by (simp add: d_def)
  next
    case False
    then show ?thesis unfolding d_def by (intro int_div_le_self) simp
  qed
  have q: "x sdiv y = sgn x * sgn y * d" by (simp add: signed_divide_int_def d_def)
  have strict: "d < M \<or> (x = - M \<and> \<bar>y\<bar> = 1)"
  proof (cases "\<bar>x\<bar> < M")
    case True
    then show ?thesis using da by simp
  next
    case False
    then have x: "x = - M" "0 < \<bar>x\<bar>" using assms(1,2) by auto
    show ?thesis
    proof (cases "1 < \<bar>y\<bar>")
      case True
      have "d < \<bar>x\<bar>" unfolding d_def by (rule int_div_less_self [OF x(2) True])
      then show ?thesis using x(1) assms(2) by simp
    next
      case False
      then have "\<bar>y\<bar> = 1" using b by simp
      then show ?thesis using x by simp
    qed
  qed
  have Mx: "\<bar>x\<bar> \<le> M" using assms(1,2) by simp
  show ?thesis
  proof (cases "0 \<le> x")
    case xp: True
    show ?thesis
    proof (cases "0 < y")
      case True
      then show ?thesis using q d0 da Mx strict assms xp by (auto simp: sgn_if)
    next
      case False
      then show ?thesis using q d0 da Mx strict assms xp by (auto simp: sgn_if)
    qed
  next
    case xn: False
    show ?thesis
    proof (cases "0 < y")
      case True
      then show ?thesis using q d0 da Mx strict assms xn by (auto simp: sgn_if)
    next
      case False
      then have "y < 0" using assms(3) by simp
      then show ?thesis using q d0 da Mx strict assms xn by (auto simp: sgn_if)
    qed
  qed
qed

lemma smod_in_range:
  fixes x y M :: int
  assumes "- M \<le> x" "x < M"
  shows "- M \<le> x smod y \<and> x smod y < M"
proof -
  define r where "r = \<bar>x\<bar> mod \<bar>y\<bar>"
  have r0: "0 \<le> r"
  proof (cases "y = 0")
    case True
    then show ?thesis by (simp add: r_def)
  next
    case False
    then show ?thesis unfolding r_def by simp
  qed
  have ra: "r \<le> \<bar>x\<bar>" unfolding r_def by (rule zmod_le_nonneg_dividend) simp
  have q: "x smod y = sgn x * r" by (simp add: signed_modulo_int_def r_def)
  show ?thesis using q r0 ra assms by (auto simp: sgn_if)
qed

lemma in_range_widen:
  assumes "in_range T1 v" "bits T1 \<le> bits T2"
  shows "in_range T2 v"
proof -
  have "(2::int) ^ (bits T1 - 1) \<le> 2 ^ (bits T2 - 1)"
    using assms(2) by (intro power_increasing) simp_all
  moreover have "- (2 ^ (bits T1 - 1)) \<le> v" "v < 2 ^ (bits T1 - 1)"
    using assms(1) by (simp_all add: in_range_def int_min_def)
  ultimately have "- (2 ^ (bits T2 - 1)) \<le> v \<and> v < 2 ^ (bits T2 - 1)"
    by linarith
  then show ?thesis by (simp add: in_range_def int_min_def)
qed




lemma bits_pos: "0 < bits T"
  by (cases T) simp_all

lemma bits_promoted: "bits T1 \<le> bits (promoted T1 T2) \<and> bits T2 \<le> bits (promoted T1 T2)"
  by (cases T1; cases T2) (simp_all add: promoted_def)

lemma int_min_promoted:
  assumes "in_range T1 x" "x = int_min (promoted T1 T2)"
  shows "x = int_min T1 \<and> bits T2 \<le> bits T1"
proof -
  let ?P = "promoted T1 T2"
  have "(2::int) ^ (bits ?P - 1) \<le> 2 ^ (bits T1 - 1)"
    using assms by (simp add: in_range_def int_min_def)
  then have "bits ?P - 1 \<le> bits T1 - 1" by (rule power_le_imp_le_exp [rotated]) simp
  then have "bits ?P \<le> bits T1" using bits_pos [of ?P] bits_pos [of T1] by linarith
  then have e: "bits ?P = bits T1" using bits_promoted [of T1 T2] by linarith
  then show ?thesis using assms(2) bits_promoted [of T1 T2] by (simp add: int_min_def)
qed




lemma int_min_wider:
  assumes "in_range T1 x" "bits T1 < bits T2"
  shows "x \<noteq> int_min T2"
proof -
  have "bits T1 - 1 < bits T2 - 1" using assms(2) bits_pos [of T1] by linarith
  then have "(2::int) ^ (bits T1 - 1) < 2 ^ (bits T2 - 1)"
    by (intro power_strict_increasing) simp_all
  moreover have "- (2 ^ (bits T1 - 1)) \<le> x" using assms(1) by (simp add: in_range_def int_min_def)
  ultimately have "- (2 ^ (bits T2 - 1)) < x" by linarith
  then show ?thesis by (simp add: int_min_def)
qed




lemma in_range_iff: "in_range T v \<longleftrightarrow> - (2 ^ (bits T - 1)) \<le> v \<and> v < 2 ^ (bits T - 1)"
  by (simp add: in_range_def int_min_def)

lemma quotient_in_range:
  assumes "in_range T1 x" "y \<noteq> 0" "\<not> (bits T2 \<le> bits T1 \<and> x = int_min T1 \<and> y = - 1)"
  shows "if bits T2 \<le> bits T1 then in_range T1 (x sdiv y) else in_range T2 (x sdiv y)"
proof (cases "bits T2 \<le> bits T1")
  case True
  have a: "- (2 ^ (bits T1 - 1)) \<le> x" "x < 2 ^ (bits T1 - 1)"
    using assms(1) unfolding in_range_iff by blast+
  have b: "\<not> (x = - (2 ^ (bits T1 - 1)) \<and> y = - 1)"
    using assms(3) True unfolding int_min_def by blast
  have "in_range T1 (x sdiv y)"
    unfolding in_range_iff by (rule sdiv_in_range [OF a assms(2) b])
  then show ?thesis using True by simp
next
  case False
  then have lt: "bits T1 < bits T2" by simp
  have 1: "in_range T2 x" by (rule in_range_widen [OF assms(1)]) (use lt in simp)
  have a: "- (2 ^ (bits T2 - 1)) \<le> x" "x < 2 ^ (bits T2 - 1)"
    using 1 unfolding in_range_iff by blast+
  have "x \<noteq> int_min T2" by (rule int_min_wider [OF assms(1) lt])
  then have b: "\<not> (x = - (2 ^ (bits T2 - 1)) \<and> y = - 1)"
    unfolding int_min_def by blast
  have "in_range T2 (x sdiv y)"
    unfolding in_range_iff by (rule sdiv_in_range [OF a assms(2) b])
  then show ?thesis using False by simp
qed



lemma DivideValue_Returned:
  assumes "GetAs T2 rhs \<noteq> 0"
    "cpp_div (promoted T1 T2) (GetAs T1 lhs) (GetAs T2 rhs) = Some q"
    "bits T2 \<le> bits T1 \<Longrightarrow> static_cast T1 q = q"
    "\<not> bits T2 \<le> bits T1 \<Longrightarrow> static_cast T2 q = q"
  shows "DivideValue T1 T2 lhs rhs =
           Returned \<lparr>type_id = (if bits T2 \<le> bits T1 then type_id lhs else type_id rhs), payload = q\<rparr>"
  using assms by (simp add: DivideValue_def Let_def)

lemma ModuloValue_Returned:
  assumes "GetAs T2 rhs \<noteq> 0"
    "cpp_mod (promoted T1 T2) (GetAs T1 lhs) (GetAs T2 rhs) = Some q"
    "bits T2 \<le> bits T1 \<Longrightarrow> static_cast T1 q = q"
    "\<not> bits T2 \<le> bits T1 \<Longrightarrow> static_cast T2 q = q"
  shows "ModuloValue T1 T2 lhs rhs =
           Returned \<lparr>type_id = (if bits T2 \<le> bits T1 then type_id lhs else type_id rhs), payload = q\<rparr>"
  using assms by (simp add: ModuloValue_def Let_def)

lemma DivideValue_Thrown:
  "DivideValue T1 T2 lhs rhs = Thrown DIVIDE_BY_ZERO \<longleftrightarrow> GetAs T2 rhs = 0"
  by (simp add: DivideValue_def Let_def split: option.splits)

lemma ModuloValue_Thrown:
  "ModuloValue T1 T2 lhs rhs = Thrown DIVIDE_BY_ZERO \<longleftrightarrow> GetAs T2 rhs = 0"
  by (simp add: ModuloValue_def Let_def split: option.splits)

lemma GetAs_in_range: "in_range T (GetAs T v)"
  unfolding GetAs_def by (rule static_cast_in_range)

lemma DivideValue_quotient:
  assumes h: "GetAs T2 rhs \<noteq> 0"
    "\<not> (bits T2 \<le> bits T1 \<and> GetAs T1 lhs = int_min T1 \<and> GetAs T2 rhs = - 1)"
  shows "DivideValue T1 T2 lhs rhs =
        Returned \<lparr>type_id = (if bits T2 \<le> bits T1 then type_id lhs else type_id rhs),
                  payload = GetAs T1 lhs sdiv GetAs T2 rhs\<rparr>"
proof (rule DivideValue_Returned [OF h(1)])
  have "\<not> (GetAs T1 lhs = int_min (promoted T1 T2) \<and> GetAs T2 rhs = - 1)"
    using int_min_promoted [OF GetAs_in_range, of T1 lhs T2] h(2) by blast
  then show "cpp_div (promoted T1 T2) (GetAs T1 lhs) (GetAs T2 rhs) = Some (GetAs T1 lhs sdiv GetAs T2 rhs)"
    unfolding cpp_div_def using h(1) by simp
next
  have r: "if bits T2 \<le> bits T1 then in_range T1 (GetAs T1 lhs sdiv GetAs T2 rhs)
           else in_range T2 (GetAs T1 lhs sdiv GetAs T2 rhs)"
    by (rule quotient_in_range [OF GetAs_in_range h])
  show "bits T2 \<le> bits T1 \<Longrightarrow> static_cast T1 (GetAs T1 lhs sdiv GetAs T2 rhs) = GetAs T1 lhs sdiv GetAs T2 rhs"
    using r by (intro static_cast_id) simp
  show "\<not> bits T2 \<le> bits T1 \<Longrightarrow> static_cast T2 (GetAs T1 lhs sdiv GetAs T2 rhs) = GetAs T1 lhs sdiv GetAs T2 rhs"
    using r by (intro static_cast_id) simp
qed

lemma ModuloValue_remainder:
  assumes h: "GetAs T2 rhs \<noteq> 0"
    "\<not> (GetAs T1 lhs = int_min (promoted T1 T2) \<and> GetAs T2 rhs = - 1)"
  shows "ModuloValue T1 T2 lhs rhs =
        Returned \<lparr>type_id = (if bits T2 \<le> bits T1 then type_id lhs else type_id rhs),
                  payload = GetAs T1 lhs smod GetAs T2 rhs\<rparr>"
proof (rule ModuloValue_Returned [OF h(1)])
  show "cpp_mod (promoted T1 T2) (GetAs T1 lhs) (GetAs T2 rhs) = Some (GetAs T1 lhs smod GetAs T2 rhs)"
    unfolding cpp_mod_def using h by simp
next
  have a: "- (2 ^ (bits T1 - 1)) \<le> GetAs T1 lhs" "GetAs T1 lhs < 2 ^ (bits T1 - 1)"
    using GetAs_in_range [of T1 lhs] unfolding in_range_iff by blast+
  have r1: "in_range T1 (GetAs T1 lhs smod GetAs T2 rhs)"
    unfolding in_range_iff by (rule smod_in_range [OF a])
  show "bits T2 \<le> bits T1 \<Longrightarrow> static_cast T1 (GetAs T1 lhs smod GetAs T2 rhs) = GetAs T1 lhs smod GetAs T2 rhs"
    by (rule static_cast_id [OF r1])
  show "\<not> bits T2 \<le> bits T1 \<Longrightarrow> static_cast T2 (GetAs T1 lhs smod GetAs T2 rhs) = GetAs T1 lhs smod GetAs T2 rhs"
    by (rule static_cast_id [OF in_range_widen [OF r1]]) simp
qed


section \<open>The example states, computed\<close>

lemma GetLSN_lsn9_bytes: "GetLSN lsn9_bytes = 9"
  by (simp add: GetLSN_def lsn9_bytes_def)

lemma pinned_pool_eq:
  "pinned_pool =
     \<lparr>pool_size = 1,
      pages = [\<lparr>page_id = 3, pin_count = 1, is_dirty = False, data = lsn9_bytes\<rparr>],
      page_table = [3 \<mapsto> 0], free_list = [], replacer = [], log_manager = True,
      calls = [ReadPage 3 False]\<rparr>"
  by (simp add: pinned_pool_def BufferPoolManager_ctor_def FetchPage_def take_frame_def
      Let_def set_page_def emit_def LRUReplacer_new_def default_Page_def)

lemma clean_pool_eq:
  "clean_pool =
     \<lparr>pool_size = 1,
      pages = [\<lparr>page_id = 3, pin_count = 0, is_dirty = False, data = lsn9_bytes\<rparr>],
      page_table = [3 \<mapsto> 0], free_list = [], replacer = [0], log_manager = True,
      calls = [ReadPage 3 False]\<rparr>"
  by (simp add: clean_pool_def BufferPoolManager_ctor_def FetchPage_def UnpinPage_def
      take_frame_def Let_def set_page_def emit_def LRUReplacer_new_def Unpin_def default_Page_def)

lemma dirty_pool_eq:
  "dirty_pool =
     \<lparr>pool_size = 1,
      pages = [\<lparr>page_id = 3, pin_count = 0, is_dirty = True, data = lsn9_bytes\<rparr>],
      page_table = [3 \<mapsto> 0], free_list = [], replacer = [0], log_manager = True,
      calls = [ReadPage 3 False]\<rparr>"
  by (simp add: dirty_pool_def BufferPoolManager_ctor_def FetchPage_def UnpinPage_def
      take_frame_def Let_def set_page_def emit_def LRUReplacer_new_def Unpin_def default_Page_def)

lemma fresh_pool_eq:
  "fresh_pool =
     \<lparr>pool_size = 1, pages = [default_Page], page_table = Map.empty, free_list = [0],
      replacer = [], log_manager = True, calls = []\<rparr>"
  by (simp add: fresh_pool_def BufferPoolManager_ctor_def LRUReplacer_new_def)

section \<open>Buffer pool: the claims\<close>

text \<open>
  Claim C1 (WAL ordering). With a log manager configured, the trace of calls of every
  run from the constructor's state is ordered, and every public operation keeps it
  ordered from any state: at each \<^verbatim>\<open>WritePage\<close> the last forced \<^verbatim>\<open>Flush\<close> before it
  carries an LSN at least the LSN in the header of the page written. Every flush goes
  through \<^verbatim>\<open>FlushPageHelper\<close>, which calls \<^verbatim>\<open>Flush(lsn, true)\<close> with the header LSN
  and then \<^verbatim>\<open>WritePage\<close> for that page, and leaves the frame clean: after
  \<^verbatim>\<open>FlushPage\<close>, after \<^verbatim>\<open>FlushAllPages\<close> for every frame whose page id is mapped,
  and for the victim that \<^verbatim>\<open>FetchPage\<close> or \<^verbatim>\<open>NewPage\<close> evicts.
\<close>

theorem wal_ordering:
  assumes "log_manager s"
  shows "wal_ordered None (calls (run ops (BufferPoolManager_ctor n True blank))) \<and>
     (wal_ordered None (calls s) \<longrightarrow> wal_ordered None (calls (exec op s))) \<and>
     calls (FlushPageHelper f s) =
       calls s @ [LogFlush (GetLSN (data (pages s ! f))) True,
                  WritePage (page_id (pages s ! f)) (data (pages s ! f))] \<and>
     (f < length (pages s) \<longrightarrow>
        \<not> is_dirty (pages (FlushPageHelper f s) ! f) \<and>
        (page_table s pid = Some f \<longrightarrow> \<not> is_dirty (pages (snd (FlushPage pid s)) ! f)) \<and>
        (f < pool_size s \<and> page_table s (page_id (pages s ! f)) \<noteq> None \<longrightarrow>
           \<not> is_dirty (pages (FlushAllPages s) ! f)) \<and>
        (\<forall>s'. free_list s = [] \<and> take_frame s = Some (f, s') \<longrightarrow> \<not> is_dirty (pages s' ! f)))"
proof -
  have 1: "wal_ordered None (calls s) \<longrightarrow> wal_ordered None (calls (exec op s))"
    using wal_step_ordered [OF wal_step_exec [OF assms]] by blast
  have 2: "calls (FlushPageHelper f s) =
       calls s @ [LogFlush (GetLSN (data (pages s ! f))) True,
                  WritePage (page_id (pages s ! f)) (data (pages s ! f))]"
    using assms by (simp add: FlushPageHelper_calls)
  have 3: "f < length (pages s) \<Longrightarrow> page_table s pid = Some f \<Longrightarrow>
        \<not> is_dirty (pages (snd (FlushPage pid s)) ! f)"
    by (simp add: FlushPage_def)
  have 4: "wal_ordered None (calls (run ops (BufferPoolManager_ctor n True blank)))"
    by (rule wal_ordered_run) (simp_all add: BufferPoolManager_ctor_def)
  show ?thesis
    using 1 2 3 4 FlushPageHelper_clean [of f s] FlushAllPages_clean [of f s]
      take_frame_victim_clean [of s f]
    by blast
qed

theorem wal_ordering_witness:
  "log_manager dirty_pool \<and> wal_ordered None (calls dirty_pool) \<and>
   0 < length (pages dirty_pool) \<and> page_table dirty_pool 3 = Some 0 \<and>
   free_list dirty_pool = [] \<and> is_dirty (pages dirty_pool ! 0) \<and>
   calls (exec (OpFlushPage 3) dirty_pool) =
     [ReadPage 3 False, LogFlush 9 True, WritePage 3 lsn9_bytes] \<and>
   wal_ordered None (calls (exec (OpFlushPage 3) dirty_pool)) \<and>
   \<not> is_dirty (pages (FlushPageHelper 0 dirty_pool) ! 0) \<and>
   \<not> is_dirty (pages (snd (FlushPage 3 dirty_pool)) ! 0) \<and>
   \<not> is_dirty (pages (FlushAllPages dirty_pool) ! 0) \<and>
   (\<exists>s'. take_frame dirty_pool = Some (0, s') \<and> \<not> is_dirty (pages s' ! 0))"
  using wal_ordering [of dirty_pool "[]" 1 default_Page "OpFlushPage 3" 0 3]
  by (simp add: dirty_pool_eq FlushPage_def FlushPageHelper_def FlushAllPages_def
      flush_if_mapped_def take_frame_def Evict_def Let_def set_page_def emit_def
      GetLSN_lsn9_bytes)

text \<open>
  Claim C2 (resource conservation), as amended. In every state reached from the state
  the constructor builds by public operations, no free frame is in the range of the
  page table; and \<open>|free_list| + |page_table| = pool_size\<close> holds as well when each page
  id that the disk manager hands to \<^verbatim>\<open>NewPage\<close> is not resident at that moment.
\<close>

theorem resource_conservation:
  "set (free_list (run ops (BufferPoolManager_ctor n lg blank))) \<inter>
     ran (page_table (run ops (BufferPoolManager_ctor n lg blank))) = {} \<and>
   (fresh_allocs ops (BufferPoolManager_ctor n lg blank) \<longrightarrow>
      conserved (run ops (BufferPoolManager_ctor n lg blank)))"
proof -
  have "frames_wf (run ops (BufferPoolManager_ctor n lg blank))"
    by (rule frames_wf_run [OF frames_wf_ctor])
  then have "set (free_list (run ops (BufferPoolManager_ctor n lg blank))) \<inter>
     ran (page_table (run ops (BufferPoolManager_ctor n lg blank))) = {}"
    by (auto simp: frames_wf_def)
  then show ?thesis
    using accounted_conserved [OF accounted_run [OF accounted_ctor]] by blast
qed

theorem resource_conservation_witness:
  "fresh_allocs [OpNewPage 0, OpUnpinPage 0 True, OpNewPage 1, OpDeletePage 0,
                 OpFetchPage 0 False (Some lsn9_bytes)]
     (BufferPoolManager_ctor 1 True default_Page) \<and>
   conserved (run [OpNewPage 0, OpUnpinPage 0 True, OpNewPage 1, OpDeletePage 0,
                   OpFetchPage 0 False (Some lsn9_bytes)]
                (BufferPoolManager_ctor 1 True default_Page))"
  using resource_conservation
    [of "[OpNewPage 0, OpUnpinPage 0 True, OpNewPage 1, OpDeletePage 0,
          OpFetchPage 0 False (Some lsn9_bytes)]" 1 True default_Page]
  by (simp add: BufferPoolManager_ctor_def NewPage_def UnpinPage_def DeletePage_def
      FetchPage_def take_frame_def FlushPageHelper_def Evict_def Size_def Unpin_def Pin_def
      Let_def set_page_def emit_def LRUReplacer_new_def default_Page_def)

text \<open>
  Claim C2 as stated fails: \<^verbatim>\<open>DeletePage\<close> returns the id of a pinned page to the disk
  manager, and when the next \<^verbatim>\<open>NewPage\<close> is handed that id the old frame is lost to
  both the free list and the page table.
\<close>

theorem resource_conservation_counterexample:
  "\<not> conserved (run [OpNewPage 0, OpDeletePage 0, OpNewPage 0]
                   (BufferPoolManager_ctor 2 True default_Page))"
  by (simp add: conserved_def BufferPoolManager_ctor_def NewPage_def DeletePage_def
      take_frame_def Size_def Let_def set_page_def emit_def LRUReplacer_new_def
      default_Page_def upt_rec)

text \<open>
  Claim C3 (\<^verbatim>\<open>UnpinPage\<close>), as amended. \<^verbatim>\<open>UnpinPage\<close> returns false exactly when the
  page is not resident or the pin count of its frame is zero. When the page is not
  resident the state is unchanged. When it is resident, \<open>is_dirty\<close> is OR-ed into the
  dirty flag of the frame whether the call succeeds or not, and a failing call changes
  nothing else. On success the pin count is decremented, and the frame is handed to
  \<^verbatim>\<open>replacer.Unpin\<close> when the count reaches zero.
\<close>

theorem UnpinPage_contract:
  "(fst (UnpinPage pid d s) = False \<longleftrightarrow>
      page_table s pid = None \<or> (\<exists>f. page_table s pid = Some f \<and> pin_count (pages s ! f) = 0)) \<and>
   (page_table s pid = None \<longrightarrow> snd (UnpinPage pid d s) = s) \<and>
   (\<forall>f. page_table s pid = Some f \<and> pin_count (pages s ! f) = 0 \<longrightarrow>
        snd (UnpinPage pid d s) = set_page f (\<lambda>p. p\<lparr>is_dirty := (is_dirty p \<or> d)\<rparr>) s) \<and>
   (\<forall>f. page_table s pid = Some f \<and> pin_count (pages s ! f) > 0 \<and> f < length (pages s) \<longrightarrow>
        pages (snd (UnpinPage pid d s)) =
          (pages s)[f := (pages s ! f)\<lparr>is_dirty := (is_dirty (pages s ! f) \<or> d),
                                       pin_count := pin_count (pages s ! f) - 1\<rparr>] \<and>
        replacer (snd (UnpinPage pid d s)) =
          (if pin_count (pages s ! f) = 1 then Unpin f (replacer s) else replacer s) \<and>
        page_table (snd (UnpinPage pid d s)) = page_table s \<and>
        free_list (snd (UnpinPage pid d s)) = free_list s \<and>
        calls (snd (UnpinPage pid d s)) = calls s)"
  by (auto simp: UnpinPage_def Let_def nth_update_any split: option.splits)

theorem UnpinPage_contract_witness:
  "page_table pinned_pool 4 = None \<and> UnpinPage 4 True pinned_pool = (False, pinned_pool) \<and>
   page_table clean_pool 3 = Some 0 \<and> pin_count (pages clean_pool ! 0) = 0 \<and>
   UnpinPage 3 False clean_pool = (False, clean_pool) \<and>
   page_table pinned_pool 3 = Some 0 \<and> pin_count (pages pinned_pool ! 0) = 1 \<and>
   fst (UnpinPage 3 True pinned_pool) = True \<and>
   pages (snd (UnpinPage 3 True pinned_pool)) =
     [\<lparr>page_id = 3, pin_count = 0, is_dirty = True, data = lsn9_bytes\<rparr>] \<and>
   replacer (snd (UnpinPage 3 True pinned_pool)) = [0]"
  using UnpinPage_contract [of 4 True pinned_pool] UnpinPage_contract [of 3 False clean_pool]
    UnpinPage_contract [of 3 True pinned_pool]
  by (simp add: pinned_pool_eq clean_pool_eq UnpinPage_def Let_def set_page_def Unpin_def)

text \<open>
  Claim C3 as stated fails: unpinning a resident page whose pin count is already zero
  returns false and yet sets the dirty flag of its frame.
\<close>

theorem UnpinPage_failure_counterexample:
  "fst (UnpinPage 3 True clean_pool) = False \<and>
   \<not> is_dirty (pages clean_pool ! 0) \<and>
   is_dirty (pages (snd (UnpinPage 3 True clean_pool)) ! 0) \<and>
   snd (UnpinPage 3 True clean_pool) \<noteq> clean_pool"
proof -
  have 1: "fst (UnpinPage 3 True clean_pool) = False"
    by (simp add: clean_pool_eq UnpinPage_def Let_def set_page_def)
  have 2: "\<not> is_dirty (pages clean_pool ! 0)"
    by (simp add: clean_pool_eq)
  have 3: "is_dirty (pages (snd (UnpinPage 3 True clean_pool)) ! 0)"
    by (simp add: clean_pool_eq UnpinPage_def Let_def set_page_def)
  from 2 3 have "snd (UnpinPage 3 True clean_pool) \<noteq> clean_pool" by metis
  with 1 2 3 show ?thesis by blast
qed

text \<open>
  Claim C4 (no live eviction). In every state reached from the constructor's state by
  public operations, every frame in the replacer's eligible set has pin count zero, so
  the frame that \<^verbatim>\<open>Evict\<close> returns has pin count zero.
\<close>

theorem no_live_eviction:
  assumes "s = run ops (BufferPoolManager_ctor n lg blank)"
  shows "(\<forall>f \<in> set (replacer s). pin_count (pages s ! f) = 0) \<and>
         (\<forall>f r. Evict (replacer s) = Some (f, r) \<longrightarrow> pin_count (pages s ! f) = 0)"
proof -
  have "frames_wf s" unfolding assms by (rule frames_wf_run [OF frames_wf_ctor])
  then have 1: "\<forall>f \<in> set (replacer s). pin_count (pages s ! f) = 0"
    by (simp add: frames_wf_def)
  then show ?thesis by (auto simp: Evict_def split: list.splits)
qed

theorem no_live_eviction_witness:
  "0 \<in> set (replacer clean_pool) \<and> Evict (replacer clean_pool) = Some (0, []) \<and>
   pin_count (pages clean_pool ! 0) = 0"
  using no_live_eviction [OF clean_pool_def]
  by (simp add: clean_pool_eq Evict_def)

text \<open>
  Claim C5 (\<^verbatim>\<open>NewPage\<close> exhaustion). \<^verbatim>\<open>NewPage\<close> returns null exactly when the free
  list is empty and the replacer has no eligible frame; then nothing is written to
  \<^verbatim>\<open>*page_id\<close> and the state, the calls to the disk manager included, is unchanged.
  Otherwise it calls \<^verbatim>\<open>AllocatePage\<close> and obtains a frame: the back of the free list,
  which is popped, or else the replacer's victim, which leaves the replacer, whose old
  bytes are flushed first when it is dirty and whose old mapping is erased. It maps the
  new id to the frame and leaves the frame with that id, pin count 1, clean and
  zero-filled; every other frame, the pool size and the log manager are as before. In a
  well-formed pool the frame is afterwards neither free nor eligible and is mapped from
  the new id only.
\<close>

theorem NewPage_exhaustion:
  "(fst (fst (NewPage alloc s)) = None \<longleftrightarrow> free_list s = [] \<and> Size (replacer s) = 0) \<and>
   (fst (fst (NewPage alloc s)) = None \<longrightarrow> NewPage alloc s = ((None, None), s)) \<and>
   (fst (fst (NewPage alloc s)) \<noteq> None \<longrightarrow>
      (\<exists>f. fst (NewPage alloc s) = (Some f, Some alloc) \<and>
           f = (if free_list s \<noteq> [] then last (free_list s) else hd (replacer s)) \<and>
           calls (snd (NewPage alloc s)) =
             calls s @ [AllocatePage] @
               (if free_list s = [] \<and> is_dirty (pages s ! f)
                then (if log_manager s then [LogFlush (GetLSN (data (pages s ! f))) True] else []) @
                     [WritePage (page_id (pages s ! f)) (data (pages s ! f))]
                else []) \<and>
           free_list (snd (NewPage alloc s)) = butlast (free_list s) \<and>
           replacer (snd (NewPage alloc s)) =
             (if free_list s \<noteq> [] then replacer s else tl (replacer s)) \<and>
           page_table (snd (NewPage alloc s)) =
             (if free_list s \<noteq> [] then (page_table s)(alloc \<mapsto> f)
              else ((page_table s)(page_id (pages s ! f) := None))(alloc \<mapsto> f)) \<and>
           page_table (snd (NewPage alloc s)) alloc = Some f \<and>
           pages (snd (NewPage alloc s)) =
             (pages s)[f := \<lparr>page_id = alloc, pin_count = 1, is_dirty = False,
                              data = replicate (length (data (pages s ! f))) 0\<rparr>] \<and>
           (f < length (pages s) \<longrightarrow>
              pages (snd (NewPage alloc s)) ! f =
                \<lparr>page_id = alloc, pin_count = 1, is_dirty = False,
                 data = replicate (length (data (pages s ! f))) 0\<rparr>) \<and>
           pool_size (snd (NewPage alloc s)) = pool_size s \<and>
           log_manager (snd (NewPage alloc s)) = log_manager s \<and>
           (frames_wf s \<longrightarrow>
              f < length (pages s) \<and>
              f \<notin> set (free_list (snd (NewPage alloc s))) \<and>
              f \<notin> set (replacer (snd (NewPage alloc s))) \<and>
              (\<forall>q. page_table (snd (NewPage alloc s)) q = Some f \<longrightarrow> q = alloc))))"
proof (intro conjI impI)
  show "fst (fst (NewPage alloc s)) = None \<longleftrightarrow> free_list s = [] \<and> Size (replacer s) = 0"
    by (rule NewPage_None_iff)
next
  assume "fst (fst (NewPage alloc s)) = None"
  then show "NewPage alloc s = ((None, None), s)" by (rule NewPage_None_state)
next
  assume "fst (fst (NewPage alloc s)) \<noteq> None"
  then obtain f where r: "fst (fst (NewPage alloc s)) = Some f" by auto
  show "\<exists>f. fst (NewPage alloc s) = (Some f, Some alloc) \<and>
           f = (if free_list s \<noteq> [] then last (free_list s) else hd (replacer s)) \<and>
           calls (snd (NewPage alloc s)) =
             calls s @ [AllocatePage] @
               (if free_list s = [] \<and> is_dirty (pages s ! f)
                then (if log_manager s then [LogFlush (GetLSN (data (pages s ! f))) True] else []) @
                     [WritePage (page_id (pages s ! f)) (data (pages s ! f))]
                else []) \<and>
           free_list (snd (NewPage alloc s)) = butlast (free_list s) \<and>
           replacer (snd (NewPage alloc s)) =
             (if free_list s \<noteq> [] then replacer s else tl (replacer s)) \<and>
           page_table (snd (NewPage alloc s)) =
             (if free_list s \<noteq> [] then (page_table s)(alloc \<mapsto> f)
              else ((page_table s)(page_id (pages s ! f) := None))(alloc \<mapsto> f)) \<and>
           page_table (snd (NewPage alloc s)) alloc = Some f \<and>
           pages (snd (NewPage alloc s)) =
             (pages s)[f := \<lparr>page_id = alloc, pin_count = 1, is_dirty = False,
                              data = replicate (length (data (pages s ! f))) 0\<rparr>] \<and>
           (f < length (pages s) \<longrightarrow>
              pages (snd (NewPage alloc s)) ! f =
                \<lparr>page_id = alloc, pin_count = 1, is_dirty = False,
                 data = replicate (length (data (pages s ! f))) 0\<rparr>) \<and>
           pool_size (snd (NewPage alloc s)) = pool_size s \<and>
           log_manager (snd (NewPage alloc s)) = log_manager s \<and>
           (frames_wf s \<longrightarrow>
              f < length (pages s) \<and>
              f \<notin> set (free_list (snd (NewPage alloc s))) \<and>
              f \<notin> set (replacer (snd (NewPage alloc s))) \<and>
              (\<forall>q. page_table (snd (NewPage alloc s)) q = Some f \<longrightarrow> q = alloc))"
    by (rule exI [of _ f]) (rule NewPage_success [OF r])
qed

theorem NewPage_exhaustion_witness:
  "free_list pinned_pool = [] \<and> Size (replacer pinned_pool) = 0 \<and>
   NewPage 7 pinned_pool = ((None, None), pinned_pool) \<and>
   frames_wf dirty_pool \<and> free_list dirty_pool = [] \<and> Size (replacer dirty_pool) = 1 \<and>
   fst (NewPage 7 dirty_pool) = (Some 0, Some 7) \<and>
   calls (snd (NewPage 7 dirty_pool)) =
     [ReadPage 3 False, AllocatePage, LogFlush 9 True, WritePage 3 lsn9_bytes] \<and>
   free_list (snd (NewPage 7 dirty_pool)) = [] \<and>
   replacer (snd (NewPage 7 dirty_pool)) = [] \<and>
   page_table (snd (NewPage 7 dirty_pool)) 3 = None \<and>
   page_table (snd (NewPage 7 dirty_pool)) 7 = Some 0 \<and>
   pages (snd (NewPage 7 dirty_pool)) =
     [\<lparr>page_id = 7, pin_count = 1, is_dirty = False, data = [0, 0, 0, 0, 0, 0, 0, 0]\<rparr>] \<and>
   frames_wf fresh_pool \<and> free_list fresh_pool = [0] \<and>
   fst (NewPage 7 fresh_pool) = (Some 0, Some 7) \<and>
   calls (snd (NewPage 7 fresh_pool)) = [AllocatePage] \<and>
   free_list (snd (NewPage 7 fresh_pool)) = [] \<and>
   replacer (snd (NewPage 7 fresh_pool)) = [] \<and>
   page_table (snd (NewPage 7 fresh_pool)) 7 = Some 0 \<and>
   0 \<notin> set (free_list (snd (NewPage 7 fresh_pool)))"
proof -
  note P = NewPage_exhaustion [of 7 pinned_pool]
  have p1: "free_list pinned_pool = [] \<and> Size (replacer pinned_pool) = 0"
    by (simp add: pinned_pool_eq Size_def)
  then have "fst (fst (NewPage 7 pinned_pool)) = None" using P [THEN conjunct1] by blast
  then have p2: "NewPage 7 pinned_pool = ((None, None), pinned_pool)"
    using P [THEN conjunct2, THEN conjunct1] by blast

  note D = NewPage_exhaustion [of 7 dirty_pool]
  have dw: "frames_wf dirty_pool"
    unfolding dirty_pool_def by (rule frames_wf_run [OF frames_wf_ctor])
  have d1: "free_list dirty_pool = [] \<and> Size (replacer dirty_pool) = 1"
    by (simp add: dirty_pool_eq Size_def)
  then have "fst (fst (NewPage 7 dirty_pool)) \<noteq> None" using D [THEN conjunct1] by simp
  from D [THEN conjunct2, THEN conjunct2, THEN mp, OF this] obtain f where
    d: "fst (NewPage 7 dirty_pool) = (Some f, Some 7)"
       "f = (if free_list dirty_pool \<noteq> [] then last (free_list dirty_pool)
             else hd (replacer dirty_pool))"
       "calls (snd (NewPage 7 dirty_pool)) =
          calls dirty_pool @ [AllocatePage] @
            (if free_list dirty_pool = [] \<and> is_dirty (pages dirty_pool ! f)
             then (if log_manager dirty_pool
                   then [LogFlush (GetLSN (data (pages dirty_pool ! f))) True] else []) @
                  [WritePage (page_id (pages dirty_pool ! f)) (data (pages dirty_pool ! f))]
             else [])"
       "free_list (snd (NewPage 7 dirty_pool)) = butlast (free_list dirty_pool)"
       "replacer (snd (NewPage 7 dirty_pool)) =
          (if free_list dirty_pool \<noteq> [] then replacer dirty_pool else tl (replacer dirty_pool))"
       "page_table (snd (NewPage 7 dirty_pool)) =
          (if free_list dirty_pool \<noteq> [] then (page_table dirty_pool)(7 \<mapsto> f)
           else ((page_table dirty_pool)(page_id (pages dirty_pool ! f) := None))(7 \<mapsto> f))"
       "pages (snd (NewPage 7 dirty_pool)) =
          (pages dirty_pool)[f := \<lparr>page_id = 7, pin_count = 1, is_dirty = False,
             data = replicate (length (data (pages dirty_pool ! f))) 0\<rparr>]"
    by (elim exE conjE) (rule that)
  have f0: "f = 0" using d(2) by (simp add: dirty_pool_eq)
  have d2: "fst (NewPage 7 dirty_pool) = (Some 0, Some 7)" using d(1) f0 by simp
  have d3: "calls (snd (NewPage 7 dirty_pool)) =
     [ReadPage 3 False, AllocatePage, LogFlush 9 True, WritePage 3 lsn9_bytes]"
    using d(3) unfolding f0 by (simp add: dirty_pool_eq GetLSN_lsn9_bytes)
  have d4: "free_list (snd (NewPage 7 dirty_pool)) = []"
    using d(4) by (simp add: dirty_pool_eq)
  have d5: "replacer (snd (NewPage 7 dirty_pool)) = []"
    using d(5) by (simp add: dirty_pool_eq)
  have d6: "page_table (snd (NewPage 7 dirty_pool)) 3 = None"
       "page_table (snd (NewPage 7 dirty_pool)) 7 = Some 0"
    using d(6) unfolding f0 by (simp_all add: dirty_pool_eq)
  have d7: "pages (snd (NewPage 7 dirty_pool)) =
     [\<lparr>page_id = 7, pin_count = 1, is_dirty = False, data = [0, 0, 0, 0, 0, 0, 0, 0]\<rparr>]"
    using d(7) unfolding f0 by (simp add: dirty_pool_eq lsn9_bytes_def)

  note F = NewPage_exhaustion [of 7 fresh_pool]
  have fw: "frames_wf fresh_pool"
    unfolding fresh_pool_def by (rule frames_wf_ctor)
  have f1: "free_list fresh_pool = [0]" by (simp add: fresh_pool_eq)
  then have "fst (fst (NewPage 7 fresh_pool)) \<noteq> None" using F [THEN conjunct1] by simp
  from F [THEN conjunct2, THEN conjunct2, THEN mp, OF this] obtain g where
    e: "fst (NewPage 7 fresh_pool) = (Some g, Some 7)"
       "g = (if free_list fresh_pool \<noteq> [] then last (free_list fresh_pool)
             else hd (replacer fresh_pool))"
       "calls (snd (NewPage 7 fresh_pool)) =
          calls fresh_pool @ [AllocatePage] @
            (if free_list fresh_pool = [] \<and> is_dirty (pages fresh_pool ! g)
             then (if log_manager fresh_pool
                   then [LogFlush (GetLSN (data (pages fresh_pool ! g))) True] else []) @
                  [WritePage (page_id (pages fresh_pool ! g)) (data (pages fresh_pool ! g))]
             else [])"
       "free_list (snd (NewPage 7 fresh_pool)) = butlast (free_list fresh_pool)"
       "replacer (snd (NewPage 7 fresh_pool)) =
          (if free_list fresh_pool \<noteq> [] then replacer fresh_pool else tl (replacer fresh_pool))"
       "page_table (snd (NewPage 7 fresh_pool)) 7 = Some g"
       "frames_wf fresh_pool \<longrightarrow>
          g < length (pages fresh_pool) \<and>
          g \<notin> set (free_list (snd (NewPage 7 fresh_pool))) \<and>
          g \<notin> set (replacer (snd (NewPage 7 fresh_pool))) \<and>
          (\<forall>q. page_table (snd (NewPage 7 fresh_pool)) q = Some g \<longrightarrow> q = 7)"
    by (elim exE conjE) (rule that)
  have g0: "g = 0" using e(2) by (simp add: fresh_pool_eq)
  have e2: "fst (NewPage 7 fresh_pool) = (Some 0, Some 7)" using e(1) g0 by simp
  have e3: "calls (snd (NewPage 7 fresh_pool)) = [AllocatePage]"
    using e(3) by (simp add: fresh_pool_eq)
  have e4: "free_list (snd (NewPage 7 fresh_pool)) = []" using e(4) by (simp add: fresh_pool_eq)
  have e5: "replacer (snd (NewPage 7 fresh_pool)) = []" using e(5) by (simp add: fresh_pool_eq)
  have e6: "page_table (snd (NewPage 7 fresh_pool)) 7 = Some 0" using e(6) g0 by simp
  have e7: "0 \<notin> set (free_list (snd (NewPage 7 fresh_pool)))" using e(7) fw g0 by blast
  show ?thesis
    using p1 p2 dw d1 d2 d3 d4 d5 d6 d7 fw f1 e2 e3 e4 e5 e6 e7 by blast
qed

text \<open>
  Claim C6 (\<^verbatim>\<open>DeletePage\<close>). \<^verbatim>\<open>DeletePage\<close> always calls \<^verbatim>\<open>DeallocatePage(pid)\<close>,
  also when it then returns false. It returns true when the page is not resident, and
  false when it is resident and pinned; in both cases nothing but the recorded call
  changes. Otherwise it sets the page id of the frame to invalid, erases the page from
  the page table, pushes the frame onto the front of the free list, removes it from the
  replacer and returns true.
\<close>

theorem DeletePage_contract:
  "calls (snd (DeletePage pid s)) = calls s @ [DeallocatePage pid] \<and>
   (page_table s pid = None \<longrightarrow> DeletePage pid s = (True, emit [DeallocatePage pid] s)) \<and>
   (\<forall>f. page_table s pid = Some f \<and> pin_count (pages s ! f) > 0 \<longrightarrow>
        DeletePage pid s = (False, emit [DeallocatePage pid] s)) \<and>
   (\<forall>f. page_table s pid = Some f \<and> pin_count (pages s ! f) = 0 \<longrightarrow>
        fst (DeletePage pid s) = True \<and>
        pages (snd (DeletePage pid s)) = (pages s)[f := (pages s ! f)\<lparr>page_id := INVALID_PAGE_ID\<rparr>] \<and>
        page_table (snd (DeletePage pid s)) = (page_table s)(pid := None) \<and>
        free_list (snd (DeletePage pid s)) = f # free_list s \<and>
        replacer (snd (DeletePage pid s)) = Pin f (replacer s) \<and>
        f \<notin> set (replacer (snd (DeletePage pid s))) \<and>
        pool_size (snd (DeletePage pid s)) = pool_size s \<and>
        log_manager (snd (DeletePage pid s)) = log_manager s)"
  by (auto simp: DeletePage_def Let_def Pin_def INVALID_PAGE_ID_def split: option.splits)

theorem DeletePage_contract_witness:
  "page_table pinned_pool 4 = None \<and>
   DeletePage 4 pinned_pool = (True, emit [DeallocatePage 4] pinned_pool) \<and>
   page_table pinned_pool 3 = Some 0 \<and> pin_count (pages pinned_pool ! 0) > 0 \<and>
   DeletePage 3 pinned_pool = (False, emit [DeallocatePage 3] pinned_pool) \<and>
   page_table clean_pool 3 = Some 0 \<and> pin_count (pages clean_pool ! 0) = 0 \<and>
   fst (DeletePage 3 clean_pool) = True \<and>
   page_id (pages (snd (DeletePage 3 clean_pool)) ! 0) = INVALID_PAGE_ID \<and>
   page_table (snd (DeletePage 3 clean_pool)) 3 = None \<and>
   free_list (snd (DeletePage 3 clean_pool)) = [0] \<and>
   replacer (snd (DeletePage 3 clean_pool)) = [] \<and>
   calls (snd (DeletePage 3 clean_pool)) = [ReadPage 3 False, DeallocatePage 3]"
  using DeletePage_contract [of 4 pinned_pool] DeletePage_contract [of 3 pinned_pool]
    DeletePage_contract [of 3 clean_pool]
  by (simp add: pinned_pool_eq clean_pool_eq Pin_def)

section \<open>B+Tree page: the claim\<close>

text \<open>
  Claim C7 (minimum occupancy), as amended. For a page whose \<open>max_size\<close> is
  non-negative and below the largest \<^verbatim>\<open>int\<close>, \<^verbatim>\<open>GetMinSize\<close> returns \<open>max_size / 2\<close>
  rounded down for a leaf, and \<open>(max_size + 1) / 2\<close> rounded down, which is the ceiling
  of \<open>max_size / 2\<close>, for an internal page.
\<close>

theorem GetMinSize_threshold:
  assumes "0 \<le> sint (max_size p)" "sint (max_size p) < 2 ^ 31 - 1"
  shows "sint (GetMinSize p) =
           (if IsLeafPage p then sint (max_size p) div 2 else (sint (max_size p) + 1) div 2) \<and>
         sint (GetMinSize p) =
           (if IsLeafPage p then \<lfloor>real_of_int (sint (max_size p)) / 2\<rfloor>
            else \<lceil>real_of_int (sint (max_size p)) / 2\<rceil>)"
proof -
  let ?m = "sint (max_size p)"
  have 1: "sint (GetMinSize p) = (if IsLeafPage p then ?m div 2 else (?m + 1) div 2)"
    using assms by (simp add: GetMinSize_def sint_int_div_2 sint_succ)
  have 2: "\<lfloor>real_of_int ?m / 2\<rfloor> = ?m div 2"
    using floor_divide_of_int_eq [of ?m 2, where ?'a = real] by simp
  have "\<lceil>real_of_int ?m / 2\<rceil> = - (- ?m div 2)"
    using ceiling_divide_eq_div [of ?m 2] by simp
  also have "\<dots> = (?m + 1) div 2" by presburger
  finally have 3: "\<lceil>real_of_int ?m / 2\<rceil> = (?m + 1) div 2" .
  show ?thesis using 1 2 3 by simp
qed

theorem GetMinSize_threshold_witness:
  "0 \<le> sint (max_size internal_page_5) \<and> sint (max_size internal_page_5) < 2 ^ 31 - 1 \<and>
   \<not> IsLeafPage internal_page_5 \<and> sint (GetMinSize internal_page_5) = 3"
  using GetMinSize_threshold [of internal_page_5]
  by (simp add: internal_page_5_def IsLeafPage_def)

text \<open>
  Claim C7 as stated fails for an internal page with an even \<open>max_size\<close>: with
  \<open>max_size = 4\<close> the code returns \<open>5 / 2 = 2\<close>, the ceiling of \<open>(4 + 1) / 2\<close> is 3.
\<close>

theorem GetMinSize_counterexample:
  "sint (GetMinSize internal_page_4) = 2 \<and>
   spec_min_size (IsLeafPage internal_page_4) (sint (max_size internal_page_4)) = 3"
  by (simp add: internal_page_4_def GetMinSize_def IsLeafPage_def int_div_def spec_min_size_def
      signed_divide_int_def)

section \<open>Index builder and metadata: the claims\<close>

text \<open>
  Claim C8 (key-width dispatch). For metadata of a B+Tree index, \<^verbatim>\<open>Build\<close> returns a
  \<^verbatim>\<open>BPlusTreeIndex\<close> exactly when the key size is 4, 8, 16, 32 or 64 bytes, its key
  width is then the key size, and for every other key size it throws
  \<^verbatim>\<open>NOT_IMPLEMENTED\<close>.
\<close>

theorem Build_key_width:
  assumes "GetIndexType metadata = BPlusTreeType"
  shows "((\<exists>W. Build metadata bpm = Inr (BPlusTreeIndex W metadata bpm)) \<longleftrightarrow>
            GetKeySize metadata \<in> {4, 8, 16, 32, 64}) \<and>
         (GetKeySize metadata \<in> {4, 8, 16, 32, 64} \<longrightarrow>
            Build metadata bpm = Inr (BPlusTreeIndex (GetKeySize metadata) metadata bpm)) \<and>
         (GetKeySize metadata \<notin> {4, 8, 16, 32, 64} \<longrightarrow> Build metadata bpm = Inl NOT_IMPLEMENTED)"
  using assms by (auto simp: Build_def)

theorem Build_key_width_witness:
  "GetIndexType (orders_index 8) = BPlusTreeType \<and> GetKeySize (orders_index 8) \<in> {4, 8, 16, 32, 64} \<and>
   Build (orders_index 8) () = Inr (BPlusTreeIndex 8 (orders_index 8) ()) \<and>
   GetIndexType (orders_index 12) = BPlusTreeType \<and> GetKeySize (orders_index 12) \<notin> {4, 8, 16, 32, 64} \<and>
   Build (orders_index 12) () = Inl NOT_IMPLEMENTED"
  using Build_key_width [of "orders_index 8" "()"] Build_key_width [of "orders_index 12" "()"]
  by (simp add: orders_index_def GetIndexType_def GetKeySize_def)

text \<open>
  Claim C9 (\<^verbatim>\<open>GetTableName\<close>). The claim is that the accessor returns the stored table
  name. The code does not: its body has no \<^verbatim>\<open>return\<close>, so on the metadata of an index
  on the table \<open>orders\<close> no value is returned, whereas \<^verbatim>\<open>GetIndexName\<close> beside it
  returns \<open>orders_pk\<close>.
\<close>

theorem GetTableName_returns_nothing:
  "GetTableName (orders_index 8) = None \<and>
   GetTableName (orders_index 8) \<noteq> Some (table_name (orders_index 8)) \<and>
   table_name (orders_index 8) = ''orders'' \<and>
   GetIndexName (orders_index 8) = Some ''orders_pk''"
  by (simp add: GetTableName_def GetIndexName_def orders_index_def)

section \<open>Integer division and modulo: the claim\<close>

text \<open>
  Claim C10 (guarded division), as amended. \<^verbatim>\<open>DivideValue\<close> and \<^verbatim>\<open>ModuloValue\<close>
  throw \<^verbatim>\<open>DIVIDE_BY_ZERO\<close> exactly when the right operand is zero, so the built-in
  operator never sees a zero divisor. For a non-zero divisor they return the truncated
  quotient, respectively the remainder, in the type of the wider operand (the left one on
  a tie), except for the quotient when the left operand is the minimum of its type, that
  type is at least as wide as the right one and the divisor is \<open>-1\<close>, and for the
  remainder when the left operand is the minimum of the promoted type and the divisor is
  \<open>-1\<close>.
\<close>

theorem integer_division_guarded:
  "(DivideValue T1 T2 lhs rhs = Thrown DIVIDE_BY_ZERO \<longleftrightarrow> GetAs T2 rhs = 0) \<and>
   (ModuloValue T1 T2 lhs rhs = Thrown DIVIDE_BY_ZERO \<longleftrightarrow> GetAs T2 rhs = 0) \<and>
   (GetAs T2 rhs \<noteq> 0 \<and>
    \<not> (bits T2 \<le> bits T1 \<and> GetAs T1 lhs = int_min T1 \<and> GetAs T2 rhs = - 1) \<longrightarrow>
      DivideValue T1 T2 lhs rhs =
        Returned \<lparr>type_id = (if bits T2 \<le> bits T1 then type_id lhs else type_id rhs),
                  payload = GetAs T1 lhs sdiv GetAs T2 rhs\<rparr>) \<and>
   (GetAs T2 rhs \<noteq> 0 \<and>
    \<not> (GetAs T1 lhs = int_min (promoted T1 T2) \<and> GetAs T2 rhs = - 1) \<longrightarrow>
      ModuloValue T1 T2 lhs rhs =
        Returned \<lparr>type_id = (if bits T2 \<le> bits T1 then type_id lhs else type_id rhs),
                  payload = GetAs T1 lhs smod GetAs T2 rhs\<rparr>)"
  using DivideValue_Thrown [of T1 T2 lhs rhs] ModuloValue_Thrown [of T1 T2 lhs rhs]
    DivideValue_quotient [of T2 rhs T1 lhs] ModuloValue_remainder [of T2 rhs T1 lhs]
  by blast

theorem integer_division_guarded_witness:
  "GetAs Int8 \<lparr>type_id = TINYINT, payload = 2\<rparr> \<noteq> 0 \<and>
   GetAs Int32 \<lparr>type_id = INTEGER, payload = - 7\<rparr> = - 7 \<and>
   DivideValue Int32 Int8 \<lparr>type_id = INTEGER, payload = - 7\<rparr> \<lparr>type_id = TINYINT, payload = 2\<rparr>
     = Returned \<lparr>type_id = INTEGER, payload = - 3\<rparr> \<and>
   ModuloValue Int32 Int8 \<lparr>type_id = INTEGER, payload = - 7\<rparr> \<lparr>type_id = TINYINT, payload = 2\<rparr>
     = Returned \<lparr>type_id = INTEGER, payload = - 1\<rparr> \<and>
   DivideValue Int32 Int8 \<lparr>type_id = INTEGER, payload = - 7\<rparr> \<lparr>type_id = TINYINT, payload = 0\<rparr>
     = Thrown DIVIDE_BY_ZERO"
  using integer_division_guarded
      [of Int32 Int8 "\<lparr>type_id = INTEGER, payload = - 7\<rparr>" "\<lparr>type_id = TINYINT, payload = 2\<rparr>"]
    integer_division_guarded
      [of Int32 Int8 "\<lparr>type_id = INTEGER, payload = - 7\<rparr>" "\<lparr>type_id = TINYINT, payload = 0\<rparr>"]
  by (simp add: GetAs_def static_cast_def int_min_def promoted_def
      signed_take_bit_eq_take_bit_shift take_bit_eq_mod signed_divide_int_def
      signed_modulo_int_def)

text \<open>
  Claim C10 as stated fails: \<open>-128 / -1\<close> on two \<^verbatim>\<open>int8_t\<close> operands has the non-zero
  divisor \<open>-1\<close>, the truncated quotient is 128, and the value returned is \<open>-128\<close>.
\<close>

theorem integer_division_counterexample:
  "GetAs Int8 \<lparr>type_id = TINYINT, payload = - 1\<rparr> \<noteq> 0 \<and>
   DivideValue Int8 Int8 \<lparr>type_id = TINYINT, payload = - 128\<rparr> \<lparr>type_id = TINYINT, payload = - 1\<rparr>
     = Returned \<lparr>type_id = TINYINT, payload = - 128\<rparr> \<and>
   (- 128 :: int) sdiv (- 1) = 128"
  by (simp add: DivideValue_def GetAs_def static_cast_def cpp_div_def promoted_def int_min_def
      Let_def signed_take_bit_eq_take_bit_shift take_bit_eq_mod)

end
